theory Spec2Isabelle
  imports Main
begin

section \<open>Python values used by the engine\<close>

text \<open>
  The exceptions the modelled code can raise. \<open>JandroidException\<close> is the
  repository's own exception class (common.py); the others are raised by the
  Python runtime.
\<close>

datatype error =
    JandroidException string
  | NameError string
  | TypeError
  | IndexError
  | KeyError
  | RecursionError string
  | AttributeError
  | ValueError

text \<open>
  Templates are JSON objects. A JSON object keeps its keys in file order, which
  is the order in which Python iterates over the loaded dictionary.
\<close>

datatype json =
    JStr string
  | JInt int
  | JBool bool
  | JNull
  | JList "json list"
  | JDict "(string \<times> json) list"

section \<open>Link table (analysis\_utils.py)\<close>

text \<open>
  \<open>current_links\<close> is a dictionary from identifiers to lists of values. A
  returnable item is a dictionary \<open>{identifier: value}\<close>; iterating over it
  visits its keys in insertion order, so it is kept as a list of pairs.
\<close>

type_synonym links = "string \<rightharpoonup> string list"
type_synonym return_object = "(string \<times> string) list"

text \<open>
  One pass of the inner loop body of \<open>fn_convert_returns_to_links\<close>.
  \<open>object_key[0]\<close> raises IndexError on the empty string.
\<close>

definition link_step :: "string \<Rightarrow> string \<Rightarrow> links \<Rightarrow> error + links" where
  "link_step object_key return_value current_links =
     (case object_key of
        [] \<Rightarrow> Inl IndexError
      | c # _ \<Rightarrow>
          if c \<noteq> CHR ''@'' then Inr current_links
          else (case current_links object_key of
                  Some vs \<Rightarrow>
                    if return_value \<in> set vs then Inr current_links
                    else Inr (current_links(object_key \<mapsto> vs @ [return_value]))
                | None \<Rightarrow> Inr (current_links(object_key \<mapsto> [return_value]))))"

text \<open>
  The dictionary is mutated in place, so an exception leaves the bindings made
  so far: the loops return the table reached together with the error, if any.
\<close>

fun convert_object :: "return_object \<Rightarrow> links \<Rightarrow> error option \<times> links" where
  "convert_object [] l = (None, l)"
| "convert_object ((k, v) # kvs) l =
     (case link_step k v l of
        Inl e \<Rightarrow> (Some e, l)
      | Inr l' \<Rightarrow> convert_object kvs l')"

fun fn_convert_returns_to_links ::
  "return_object list \<Rightarrow> links \<Rightarrow> error option \<times> links" where
  "fn_convert_returns_to_links [] l = (None, l)"
| "fn_convert_returns_to_links (r # rs) l =
     (case convert_object r l of
        (Some e, l') \<Rightarrow> (Some e, l')
      | (None, l') \<Rightarrow> fn_convert_returns_to_links rs l')"

definition fn_get_linked_items :: "links \<Rightarrow> string \<Rightarrow> string list" where
  "fn_get_linked_items current_links link_key =
     (case current_links link_key of None \<Rightarrow> [] | Some link_items \<Rightarrow> link_items)"

section \<open>Python strings\<close>

text \<open>\<open>s.startswith(p)\<close>, \<open>s.endswith(p)\<close> and the substring test \<open>sub in s\<close>.\<close>

fun startswith :: "string \<Rightarrow> string \<Rightarrow> bool" where
  "startswith s [] = True"
| "startswith [] (p # ps) = False"
| "startswith (c # cs) (p # ps) = (c = p \<and> startswith cs ps)"

definition endswith :: "string \<Rightarrow> string \<Rightarrow> bool" where
  "endswith s p = startswith (rev s) (rev p)"

fun py_in :: "string \<Rightarrow> string \<Rightarrow> bool" where
  "py_in sub [] = (sub = [])"
| "py_in sub (c # cs) = (startswith (c # cs) sub \<or> py_in sub cs)"

text \<open>
  \<open>s.split(sep)\<close> for a non-empty separator: the string is scanned from the
  left; where the separator starts, the piece read so far is closed and the
  rest of the separator is skipped (\<open>skip\<close> counts the characters left to skip).
\<close>

fun split_scan :: "string \<Rightarrow> nat \<Rightarrow> string \<Rightarrow> string \<Rightarrow> string list" where
  "split_scan sep skip cur [] = [cur]"
| "split_scan sep skip cur (c # cs) =
     (if 0 < skip then split_scan sep (skip - 1) cur cs
      else if startswith (c # cs) sep then cur # split_scan sep (length sep - 1) [] cs
      else split_scan sep 0 (cur @ [c]) cs)"

definition py_split :: "string \<Rightarrow> string \<Rightarrow> string list" where
  "py_split s sep = split_scan sep 0 [] s"

fun py_join :: "string \<Rightarrow> string list \<Rightarrow> string" where
  "py_join sep [] = []"
| "py_join sep [x] = x"
| "py_join sep (x # y # ys) = x @ sep @ py_join sep (y # ys)"

text \<open>\<open>s.replace(old, new)\<close> for a non-empty \<open>old\<close>.\<close>

definition py_replace :: "string \<Rightarrow> string \<Rightarrow> string \<Rightarrow> string" where
  "py_replace s old new = py_join new (py_split s old)"

text \<open>
  \<open>s.strip()\<close> removes the white space at both ends: the blank, the control
  characters 0x09 to 0x0D and 0x1C to 0x1F, NEL and the no-break space.
\<close>

definition is_space :: "char \<Rightarrow> bool" where
  "is_space c \<longleftrightarrow>
     c \<in> set [CHR '' '', CHR 0x09, CHR 0x0A, CHR 0x0B, CHR 0x0C, CHR 0x0D,
                CHR 0x1C, CHR 0x1D, CHR 0x1E, CHR 0x1F, CHR 0x85, CHR 0xA0]"

definition py_strip :: "string \<Rightarrow> string" where
  "py_strip s = rev (dropWhile is_space (rev (dropWhile is_space s)))"

text \<open>\<open>xs[i]\<close> raises IndexError outside the list.\<close>

definition py_index :: "'a list \<Rightarrow> nat \<Rightarrow> error + 'a" where
  "py_index xs i = (if i < length xs then Inr (xs ! i) else Inl IndexError)"

section \<open>The Bytecode Index\<close>

text \<open>
  The decoded application is provided by Androguard. An \<open>EncodedMethod\<close> is
  known by its class name, name and descriptor. The index holds the tables of
  one application: its classes with their superclass (\<open>None\<close> for an external
  class, which has no class definition), its methods, and the cross references
  between methods, from methods to classes and from methods to strings, each
  as (referencing method, target). The two functions of Python's \<open>re\<close> module
  that the queries go through are parameters of the index. Androguard keeps
  the cross references of a method in sets: the order of a table is the order
  in which one run lists them, and another run of the same application may
  list them in another order.
\<close>

record encoded_method =
  get_class_name :: string
  get_name :: string
  get_descriptor :: string

record bytecode_index =
  re_match :: "string \<Rightarrow> string \<Rightarrow> bool"
  re_escape :: "string \<Rightarrow> string"
  classes :: "(string \<times> string option) list"
  methods :: "encoded_method list"
  method_xrefs :: "(encoded_method \<times> encoded_method) list"
  class_xrefs :: "(encoded_method \<times> string) list"
  string_xrefs :: "(encoded_method \<times> string) list"

definition get_internal_classes :: "bytecode_index \<Rightarrow> (string \<times> string) list" where
  "get_internal_classes dx =
     concat (map (\<lambda>(c, s). case s of None \<Rightarrow> [] | Some superclass \<Rightarrow> [(c, superclass)]) (classes dx))"

definition find_methods :: "bytecode_index \<Rightarrow> string \<Rightarrow> string \<Rightarrow> string \<Rightarrow> encoded_method list" where
  "find_methods dx classname methodname descriptor =
     filter (\<lambda>m. re_match dx classname (get_class_name m)
                 \<and> re_match dx methodname (get_name m)
                 \<and> re_match dx descriptor (get_descriptor m)) (methods dx)"

definition find_classes :: "bytecode_index \<Rightarrow> string \<Rightarrow> (string \<times> string option) list" where
  "find_classes dx pattern = filter (\<lambda>(c, s). re_match dx pattern c) (classes dx)"

definition get_xref_from :: "bytecode_index \<Rightarrow> encoded_method \<Rightarrow> encoded_method list" where
  "get_xref_from dx m = map fst (filter (\<lambda>(caller, callee). callee = m) (method_xrefs dx))"

definition get_xref_to :: "bytecode_index \<Rightarrow> encoded_method \<Rightarrow> encoded_method list" where
  "get_xref_to dx m = map snd (filter (\<lambda>(caller, callee). caller = m) (method_xrefs dx))"

definition class_get_xref_from :: "bytecode_index \<Rightarrow> string \<Rightarrow> encoded_method list" where
  "class_get_xref_from dx c = map fst (filter (\<lambda>(m, target). target = c) (class_xrefs dx))"

definition string_get_xref_from :: "bytecode_index \<Rightarrow> string \<Rightarrow> encoded_method list" where
  "string_get_xref_from dx s = map fst (filter (\<lambda>(m, target). target = s) (string_xrefs dx))"

section \<open>Analysis utilities (analysis\_utils.py)\<close>

text \<open>
  A value read with \<open>configparser\<close> is always a string; the attribute
  \<open>keep_user_interaction\<close> starts as the boolean False, so it holds either.
\<close>

datatype pyval = PyBool bool | PyStr string

type_synonym config = "string \<times> string \<rightharpoonup> string"

text \<open>
  The state of an \<open>AnalysisUtils\<close> object. Python does not fix the order in
  which \<open>list(set(xs))\<close> lists the elements: it depends on the hash values of
  the elements. The order used is a parameter, one for sets of strings and one
  for sets of method objects.
\<close>

record analysis_utils =
  androguard_dx :: bytecode_index
  keep_user_interaction :: pyval
  str_set_order :: "string list \<Rightarrow> string list"
  method_set_order :: "encoded_method list \<Rightarrow> encoded_method list"

definition read_keep_user_interaction :: "config \<Rightarrow> pyval" where
  "read_keep_user_interaction conf =
     (let keep = (case conf (''SEARCHPARAMS'', ''KEEP_INTERACTIVE_ELEMENTS'') of
                    None \<Rightarrow> PyBool False
                  | Some v \<Rightarrow> PyStr v)
      in if keep \<notin> set [PyBool True, PyBool False] then PyBool False else keep)"

definition AnalysisUtils ::
  "config \<Rightarrow> bytecode_index \<Rightarrow> (string list \<Rightarrow> string list) \<Rightarrow> (encoded_method list \<Rightarrow> encoded_method list)
     \<Rightarrow> analysis_utils" where
  "AnalysisUtils conf dx so mo =
     \<lparr>androguard_dx = dx, keep_user_interaction = read_keep_user_interaction conf,
      str_set_order = so, method_set_order = mo\<rparr>"

text \<open>
  \<open>fn_find_subclasses\<close> calls itself for every subclass found. On a class
  table with a cycle the recursion never ends and Python raises RecursionError;
  a chain of distinct subclasses is no longer than the table, so the depth
  allowed is the size of the table plus one. The cache \<open>self.subclasses\<close>
  only stores the list computed.
\<close>

fun find_subclasses_depth :: "nat \<Rightarrow> analysis_utils \<Rightarrow> string \<Rightarrow> error + string list"
and find_subclasses_loop ::
  "nat \<Rightarrow> analysis_utils \<Rightarrow> string \<Rightarrow> (string \<times> string) list \<Rightarrow> string list
     \<Rightarrow> error + string list" where
  "find_subclasses_depth 0 u class_name = Inl (RecursionError ''fn_find_subclasses'')"
| "find_subclasses_depth (Suc n) u class_name =
     (case find_subclasses_loop n u class_name (get_internal_classes (androguard_dx u)) [] of
        Inl e \<Rightarrow> Inl e
      | Inr subclasses \<Rightarrow> Inr (str_set_order u subclasses))"
| "find_subclasses_loop n u class_name [] subclasses = Inr subclasses"
| "find_subclasses_loop n u class_name ((subclass_name, superclass_name) # rest) subclasses =
     (if superclass_name = class_name
      then (case find_subclasses_depth n u subclass_name of
              Inl e \<Rightarrow> Inl e
            | Inr nextlevel_subclasses \<Rightarrow>
                find_subclasses_loop n u class_name rest
                  ((subclasses @ [subclass_name]) @ nextlevel_subclasses))
      else find_subclasses_loop n u class_name rest subclasses)"

definition fn_find_subclasses :: "analysis_utils \<Rightarrow> string \<Rightarrow> error + string list" where
  "fn_find_subclasses u class_name =
     find_subclasses_depth (Suc (length (classes (androguard_dx u)))) u class_name"

text \<open>\<open>fn_find_superclasses\<close>, in the same way.\<close>

fun find_superclasses_depth :: "nat \<Rightarrow> analysis_utils \<Rightarrow> string \<Rightarrow> error + string list"
and find_superclasses_loop ::
  "nat \<Rightarrow> analysis_utils \<Rightarrow> (string \<times> string option) list \<Rightarrow> string list
     \<Rightarrow> error + string list" where
  "find_superclasses_depth 0 u class_name = Inl (RecursionError ''fn_find_superclasses'')"
| "find_superclasses_depth (Suc n) u class_name =
     (case find_superclasses_loop n u (find_classes (androguard_dx u) class_name) [] of
        Inl e \<Rightarrow> Inl e
      | Inr superclasses \<Rightarrow> Inr (str_set_order u superclasses))"
| "find_superclasses_loop n u [] superclasses = Inr superclasses"
| "find_superclasses_loop n u ((c, None) # rest) superclasses =
     find_superclasses_loop n u rest superclasses"
| "find_superclasses_loop n u ((c, Some superclass_name) # rest) superclasses =
     (case find_superclasses_depth n u superclass_name of
        Inl e \<Rightarrow> Inl e
      | Inr nextlevel_superclasses \<Rightarrow>
          find_superclasses_loop n u rest
            ((superclasses @ [superclass_name]) @ nextlevel_superclasses))"

definition fn_find_superclasses :: "analysis_utils \<Rightarrow> string \<Rightarrow> error + string list" where
  "fn_find_superclasses u class_name =
     find_superclasses_depth (Suc (length (classes (androguard_dx u)))) u class_name"

definition fn_get_methods :: "analysis_utils \<Rightarrow> string \<Rightarrow> string \<Rightarrow> string \<Rightarrow> encoded_method list" where
  "fn_get_methods u class_part method_part desc_part =
     (let dx = androguard_dx u;
          desc_part = (if desc_part \<noteq> ''.'' then re_escape dx desc_part else desc_part);
          class_part = re_escape dx class_part;
          method_part = re_escape dx method_part
      in find_methods dx class_part method_part desc_part)"

definition user_interaction_events :: "string list" where
  "user_interaction_events =
     [''onBackPressed'', ''onClick'', ''onContextClick'', ''onContextItemSelected'',
      ''onContextMenuClosed'', ''onCreateContextMenu'', ''onDrag'', ''onFocusChange'',
      ''onHover'', ''onKey'', ''onKeyDown'', ''onKeyUp'',
      ''onLocalVoiceInteractionStarted'', ''onLocalVoiceInteractionStopped'',
      ''onLongClick'', ''onMenuItemClick'', ''onMenuItemSelected'', ''onMenuOpened'',
      ''onNavigateUp'', ''onOptionsItemSelected'', ''onOptionsMenuClosed'',
      ''onProvideAssistContent'', ''onProvideAssistData'', ''onSearchRequested'',
      ''onTouch'', ''onTouchEvent'', ''onTrackballEvent'', ''onUserInteraction'']"

definition fn_check_for_user_interaction_element :: "string \<Rightarrow> bool" where
  "fn_check_for_user_interaction_element method_name =
     list_ex (\<lambda>user_interaction_event. method_name = user_interaction_event)
       user_interaction_events"

text \<open>
  The inner loop of \<open>fn_get_calls_to_method\<close> over the callers of one method:
  interactive callers are dropped unless \<open>keep_user_interaction\<close> is set, and
  a caller already collected is not added again.
\<close>

fun calls_to_xrefs :: "analysis_utils \<Rightarrow> encoded_method list \<Rightarrow> encoded_method list \<Rightarrow> encoded_method list" where
  "calls_to_xrefs u [] calling_methods = calling_methods"
| "calls_to_xrefs u (xref_from_elem # rest) calling_methods =
     (if keep_user_interaction u = PyBool False
         \<and> fn_check_for_user_interaction_element (get_name xref_from_elem)
      then calls_to_xrefs u rest calling_methods
      else if xref_from_elem \<notin> set calling_methods
      then calls_to_xrefs u rest (calling_methods @ [xref_from_elem])
      else calls_to_xrefs u rest calling_methods)"

fun calls_to_methods :: "analysis_utils \<Rightarrow> encoded_method list \<Rightarrow> encoded_method list \<Rightarrow> encoded_method list" where
  "calls_to_methods u [] calling_methods = calling_methods"
| "calls_to_methods u (method_obj # rest) calling_methods =
     calls_to_methods u rest
       (calls_to_xrefs u (get_xref_from (androguard_dx u) method_obj) calling_methods)"

definition fn_get_calls_to_method ::
  "analysis_utils \<Rightarrow> string \<Rightarrow> string \<Rightarrow> string \<Rightarrow> encoded_method list" where
  "fn_get_calls_to_method u class_part method_part desc_part =
     calls_to_methods u (fn_get_methods u class_part method_part desc_part) []"

text \<open>
  The collectors that gather the methods in a Python set: interactive methods
  are dropped in the same way, and the set is listed in the order of the
  runtime.
\<close>

definition drop_interactive :: "analysis_utils \<Rightarrow> encoded_method list \<Rightarrow> encoded_method list" where
  "drop_interactive u xrefs =
     filter (\<lambda>m. \<not> (keep_user_interaction u = PyBool False
                      \<and> fn_check_for_user_interaction_element (get_name m))) xrefs"

definition fn_get_calls_from_method ::
  "analysis_utils \<Rightarrow> string \<Rightarrow> string \<Rightarrow> string \<Rightarrow> encoded_method list" where
  "fn_get_calls_from_method u class_part method_part desc_part =
     (let desc_part = py_replace desc_part ''['' [CHR 0x5C, CHR ''[''];
          method_objs = fn_get_methods u class_part method_part desc_part
      in method_set_order u
           (concat (map (\<lambda>method_obj.
              drop_interactive u (get_xref_to (androguard_dx u) method_obj)) method_objs)))"

text \<open>
  \<open>fn_get_strings\<close> reads the name \<open>search_string\<close>, which is bound neither
  in the function (its parameter is \<open>string\<close>) nor in the module.
\<close>

definition fn_get_strings :: "analysis_utils \<Rightarrow> string \<Rightarrow> error + string list" where
  "fn_get_strings u string = Inl (NameError ''search_string'')"

definition fn_get_calls_to_string :: "analysis_utils \<Rightarrow> string \<Rightarrow> error + encoded_method list" where
  "fn_get_calls_to_string u string =
     (case fn_get_strings u string of
        Inl e \<Rightarrow> Inl e
      | Inr string_objs \<Rightarrow>
          Inr (method_set_order u
                 (concat (map (\<lambda>string_obj.
                    drop_interactive u (string_get_xref_from (androguard_dx u) string_obj))
                    string_objs))))"

definition fn_get_classes :: "analysis_utils \<Rightarrow> string \<Rightarrow> (string \<times> string option) list" where
  "fn_get_classes u class_part = find_classes (androguard_dx u) class_part"

definition fn_get_calls_to_class :: "analysis_utils \<Rightarrow> string \<Rightarrow> encoded_method list" where
  "fn_get_calls_to_class u class_part =
     method_set_order u
       (concat (map (\<lambda>(c, s). drop_interactive u (class_get_xref_from (androguard_dx u) c))
                  (fn_get_classes u class_part)))"

definition fn_get_class_method_desc_from_string ::
  "string \<Rightarrow> error + (string \<times> string \<times> string)" where
  "fn_get_class_method_desc_from_string input_string =
     (if py_in ''->'' input_string
      then (let split_string = py_split input_string ''->''
            in if length split_string \<noteq> 2 \<or> split_string ! 1 = []
               then Inl (JandroidException ''IncorrectMethodCall'')
               else (let class_part = split_string ! 0;
                         method_desc_part = split_string ! 1
                     in if py_in ''('' method_desc_part
                        then Inr (class_part,
                                  py_split method_desc_part ''('' ! 0,
                                  ''('' @ py_split method_desc_part ''('' ! 1)
                        else Inr (class_part, method_desc_part, ''.'')))
      else Inr (input_string, ''.*'', ''.*''))"

definition fn_get_class_method_desc_from_method :: "encoded_method \<Rightarrow> string \<times> string \<times> string" where
  "fn_get_class_method_desc_from_method encoded_method =
     (let class_part = get_class_name encoded_method;
          method_part = get_name encoded_method;
          desc_part = get_descriptor encoded_method;
          desc_part = py_replace desc_part '' '' '''';
          desc_part = hd (py_split desc_part ''[access'')
      in (class_part, method_part, desc_part))"

section \<open>Search engine (code\_analyser\_search.py)\<close>

text \<open>
  \<open>obj[key]\<close> on a value loaded from JSON. Only a dictionary can be
  subscripted with a string; a list takes an integer (a boolean counts as one).
\<close>

fun py_getitem :: "json \<Rightarrow> json \<Rightarrow> error + json" where
  "py_getitem (JDict d) (JStr k) =
     (case map_of d k of None \<Rightarrow> Inl KeyError | Some v \<Rightarrow> Inr v)"
| "py_getitem (JDict d) (JList xs) = Inl TypeError"
| "py_getitem (JDict d) (JDict e) = Inl TypeError"
| "py_getitem (JDict d) k = Inl KeyError"
| "py_getitem (JList xs) (JInt i) =
     (if 0 \<le> i \<and> i < int (length xs) then Inr (xs ! nat i)
      else if i < 0 \<and> - i \<le> int (length xs) then Inr (xs ! nat (int (length xs) + i))
      else Inl IndexError)"
| "py_getitem (JList xs) (JBool b) =
     (if (if b then 1 else 0) < length xs then Inr (xs ! (if b then 1 else 0))
      else Inl IndexError)"
| "py_getitem obj k = Inl TypeError"

text \<open>The values a \<open>for\<close> loop over a dictionary or a list goes through.\<close>

fun py_iter :: "json \<Rightarrow> error + json list" where
  "py_iter (JDict d) = Inr (map (\<lambda>(k, v). JStr k) d)"
| "py_iter (JList xs) = Inr xs"
| "py_iter (JStr s) = Inr (map (\<lambda>c. JStr [c]) s)"
| "py_iter obj = Inl TypeError"

text \<open>
  \<open>type(x)\<close> of a value loaded from JSON, and the operator \<open>in\<close> with a string
  on its left: a key of a dictionary, an element of a list, a substring of a
  string. Numbers, booleans and None are not iterable.
\<close>

datatype py_type = Type_str | Type_int | Type_bool | Type_none | Type_list | Type_dict

fun type_of :: "json \<Rightarrow> py_type" where
  "type_of (JStr s) = Type_str"
| "type_of (JInt i) = Type_int"
| "type_of (JBool b) = Type_bool"
| "type_of JNull = Type_none"
| "type_of (JList xs) = Type_list"
| "type_of (JDict d) = Type_dict"

fun str_in :: "string \<Rightarrow> json \<Rightarrow> error + bool" where
  "str_in k (JDict d) = Inr (k \<in> set (map fst d))"
| "str_in k (JList xs) = Inr (JStr k \<in> set xs)"
| "str_in k (JStr s) = Inr (py_in k s)"
| "str_in k obj = Inl TypeError"

text \<open>\<open>x.split(sep)\<close>: only a string has the method.\<close>

fun split_of :: "json \<Rightarrow> string \<Rightarrow> error + string list" where
  "split_of (JStr s) sep = Inr (py_split s sep)"
| "split_of obj sep = Inl AttributeError"

text \<open>
  \<open>CodeSearch.fn_get_linked_items\<close>: the values of a link, as a whole or
  reduced to their class part, listed through a Python set.
\<close>

definition linked_item_strings ::
  "string \<Rightarrow> string \<Rightarrow> string \<Rightarrow> string list \<Rightarrow> string list" where
  "linked_item_strings link_subpart remaining_string search_class_or_method linked_items =
     (let for_type = (\<lambda>return_string.
            if search_class_or_method = ''<class>''
            then hd (py_split return_string ''->'') else return_string)
      in if link_subpart = []
         then map (\<lambda>linked_item. for_type (linked_item @ remaining_string)) linked_items
         else if link_subpart = ''<class>''
         then map (\<lambda>linked_item.
                for_type (hd (py_split linked_item ''->'') @ remaining_string)) linked_items
         else if link_subpart = ''<method>''
         then map (\<lambda>linked_item. for_type (linked_item @ remaining_string))
                (filter (\<lambda>linked_item. py_in ''->'' linked_item) linked_items)
         else [])"

definition CodeSearch_fn_get_linked_items ::
  "analysis_utils \<Rightarrow> links \<Rightarrow> string \<Rightarrow> string \<Rightarrow> error + string list" where
  "CodeSearch_fn_get_linked_items u current_links string search_class_or_method =
     (if \<not> py_in '']'' string
      then Inr (str_set_order u
             (linked_item_strings [] [] search_class_or_method
                (fn_get_linked_items current_links string)))
      else
        (let split_for_link = py_split string '']'';
             remaining_string = split_for_link ! 1;
             second_split = py_split (split_for_link ! 0) ''[''
         in case py_index second_split 1 of
              Inl e \<Rightarrow> Inl e
            | Inr subpart \<Rightarrow>
                Inr (str_set_order u
                  (linked_item_strings (py_replace subpart '' '' '''') remaining_string
                     search_class_or_method
                     (fn_get_linked_items current_links (second_split ! 0))))))"

text \<open>
  The loop of \<open>fn_identify_search_items\<close> over the alternatives of a class or
  method target: a link is replaced by its values, those not yet listed.
\<close>

fun identify_items ::
  "analysis_utils \<Rightarrow> links \<Rightarrow> string \<Rightarrow> string list \<Rightarrow> string list \<Rightarrow> error + string list" where
  "identify_items u current_links scm [] all_items = Inr all_items"
| "identify_items u current_links scm (one_item # rest) all_items =
     (case one_item of
        [] \<Rightarrow> Inl IndexError
      | c # _ \<Rightarrow>
          if c = CHR ''@''
          then (case CodeSearch_fn_get_linked_items u current_links one_item scm of
                  Inl e \<Rightarrow> Inl e
                | Inr linked_items \<Rightarrow>
                    identify_items u current_links scm rest
                      (fold (\<lambda>linked_item acc.
                          if linked_item \<in> set acc then acc else acc @ [linked_item])
                        linked_items all_items))
          else identify_items u current_links scm rest (all_items @ [one_item]))"

definition fn_identify_search_items ::
  "analysis_utils \<Rightarrow> links \<Rightarrow> string \<Rightarrow> string \<Rightarrow> error + string list" where
  "fn_identify_search_items u current_links type input =
     (let search_class_or_method =
            (if py_in '':'' input then hd (py_split input '':'')
             else if py_in ''->'' input then ''<method>'' else ''<class>'');
          input = (if py_in '':'' input
                   then drop (length search_class_or_method + 1) input else input);
          alternatives = (if py_in '' OR '' input then py_split input '' OR '' else [input])
      in if type = ''STRING'' then Inr alternatives
         else identify_items u current_links search_class_or_method alternatives [])"

text \<open>
  The existence searches. \<open>fn_search_for_presence_of_string\<close> fails in
  \<open>fn_get_strings\<close>. In \<open>fn_search_for_presence_of_method\<close> and
  \<open>fn_search_for_presence_of_class\<close> the list \<open>all_methods\<close>
  (\<open>all_classes\<close>) is never bound, in the function or in the module: the
  statement that extends it raises NameError before its argument is evaluated,
  and so does the test of its length after the loop.
\<close>

fun presence_of_string_loop ::
  "analysis_utils \<Rightarrow> string list \<Rightarrow> string list \<Rightarrow> error + string list" where
  "presence_of_string_loop u [] all_strings = Inr all_strings"
| "presence_of_string_loop u (search_string # rest) all_strings =
     (case fn_get_strings u (py_strip search_string) of
        Inl e \<Rightarrow> Inl e
      | Inr found \<Rightarrow> presence_of_string_loop u rest (all_strings @ found))"

definition fn_search_for_presence_of_string ::
  "analysis_utils \<Rightarrow> string list \<Rightarrow> error + bool" where
  "fn_search_for_presence_of_string u search_strings =
     (case presence_of_string_loop u search_strings [] of
        Inl e \<Rightarrow> Inl e
      | Inr all_strings \<Rightarrow> Inr (length all_strings \<noteq> 0))"

fun presence_of_method_loop :: "analysis_utils \<Rightarrow> string list \<Rightarrow> error + unit" where
  "presence_of_method_loop u [] = Inr ()"
| "presence_of_method_loop u (method_to_search # rest) =
     (case fn_get_class_method_desc_from_string method_to_search of
        Inl e \<Rightarrow> Inl e
      | Inr (class_part, method_part, desc_part) \<Rightarrow>
          (case fn_find_subclasses u class_part of
             Inl e \<Rightarrow> Inl e
           | Inr subclasses \<Rightarrow>
               (case class_part # subclasses of
                  [] \<Rightarrow> presence_of_method_loop u rest
                | cls # _ \<Rightarrow> Inl (NameError ''all_methods''))))"

definition fn_search_for_presence_of_method ::
  "analysis_utils \<Rightarrow> string list \<Rightarrow> error + bool" where
  "fn_search_for_presence_of_method u methods_to_search =
     (case presence_of_method_loop u methods_to_search of
        Inl e \<Rightarrow> Inl e
      | Inr _ \<Rightarrow> Inl (NameError ''all_methods''))"

fun presence_of_class_loop :: "analysis_utils \<Rightarrow> string list \<Rightarrow> error + unit" where
  "presence_of_class_loop u [] = Inr ()"
| "presence_of_class_loop u (class_to_search # rest) =
     (case fn_find_subclasses u class_to_search of
        Inl e \<Rightarrow> Inl e
      | Inr subclasses \<Rightarrow>
          (case class_to_search # subclasses of
             [] \<Rightarrow> presence_of_class_loop u rest
           | cls # _ \<Rightarrow> Inl (NameError ''all_classes'')))"

definition fn_search_for_presence_of_class ::
  "analysis_utils \<Rightarrow> string list \<Rightarrow> error + bool" where
  "fn_search_for_presence_of_class u classes_to_search =
     (case presence_of_class_loop u classes_to_search of
        Inl e \<Rightarrow> Inl e
      | Inr _ \<Rightarrow> Inl (NameError ''all_classes''))"

text \<open>Location filter.\<close>

definition fn_check_callers_against_expectation ::
  "encoded_method \<Rightarrow> string \<Rightarrow> string \<Rightarrow> bool \<Rightarrow> error + bool" where
  "fn_check_callers_against_expectation encoded_method location_value location_type exclude_match =
     (case fn_get_class_method_desc_from_method encoded_method of
        (class_part, method_part, desc_part) \<Rightarrow>
          (case fn_get_class_method_desc_from_string location_value of
             Inl e \<Rightarrow> Inl e
           | Inr (exp_class_part, exp_method_part, exp_desc_part) \<Rightarrow>
               (let is_satisfied =
                      (if location_type = ''<class>''
                       then (if endswith exp_class_part ''*''
                             then startswith class_part (py_replace exp_class_part ''*'' '''')
                             else class_part = exp_class_part)
                       else if location_type = ''<method>''
                       then class_part = exp_class_part \<and> method_part = exp_method_part
                            \<and> desc_part = exp_desc_part
                       else False)
                in Inr (if exclude_match then \<not> is_satisfied else is_satisfied))))"

fun location_values_loop ::
  "encoded_method \<Rightarrow> string list \<Rightarrow> string \<Rightarrow> bool \<Rightarrow> encoded_method list \<Rightarrow> error + encoded_method list" where
  "location_values_loop input_method [] location_type location_exclusion output_methods =
     Inr output_methods"
| "location_values_loop input_method (location_value # rest) location_type location_exclusion
     output_methods =
     (case fn_check_callers_against_expectation input_method location_value location_type
             location_exclusion of
        Inl e \<Rightarrow> Inl e
      | Inr is_satisfied \<Rightarrow>
          location_values_loop input_method rest location_type location_exclusion
            (if is_satisfied then output_methods @ [input_method] else output_methods))"

fun location_methods_loop ::
  "encoded_method list \<Rightarrow> string list \<Rightarrow> string \<Rightarrow> bool \<Rightarrow> encoded_method list \<Rightarrow> error + encoded_method list" where
  "location_methods_loop [] location_values location_type location_exclusion output_methods =
     Inr output_methods"
| "location_methods_loop (input_method # rest) location_values location_type
     location_exclusion output_methods =
     (case location_values_loop input_method location_values location_type
             location_exclusion output_methods of
        Inl e \<Rightarrow> Inl e
      | Inr output_methods \<Rightarrow>
          location_methods_loop rest location_values location_type location_exclusion
            output_methods)"

definition fn_get_methods_satisfying_location_reqs ::
  "links \<Rightarrow> encoded_method list \<Rightarrow> string \<Rightarrow> error + encoded_method list" where
  "fn_get_methods_satisfying_location_reqs current_links input_methods location =
     (let location_exclusion = py_in ''NOT '' location;
          location = (if location_exclusion then py_replace location ''NOT '' '''' else location);
          location_type = (if py_in '':'' location then py_split location '':'' ! 0
                           else ''<class>'');
          location_value = (if py_in '':'' location then py_split location '':'' ! 1
                            else location)
      in case location_value of
           [] \<Rightarrow> Inl IndexError
         | c # _ \<Rightarrow>
             location_methods_loop input_methods
               (if c = CHR ''@'' then fn_get_linked_items current_links location_value
                else [location_value])
               location_type location_exclusion [])"

text \<open>Return bindings. \<open>current_returns\<close> is threaded through.\<close>

definition fn_process_returnable_item ::
  "encoded_method \<Rightarrow> string \<Rightarrow> string \<Rightarrow> return_object list \<Rightarrow> return_object list" where
  "fn_process_returnable_item return_candidate return_type element_name current_returns =
     (case fn_get_class_method_desc_from_method return_candidate of
        (class_name, method_name, desc_name) \<Rightarrow>
          current_returns @
            [if return_type = ''<class>'' then [(element_name, class_name)]
             else if return_type = ''<method>''
             then [(element_name, class_name @ ''->'' @ method_name @ desc_name)]
             else []])"

fun return_elements_loop ::
  "json list \<Rightarrow> encoded_method list \<Rightarrow> return_object list \<Rightarrow> error + return_object list" where
  "return_elements_loop [] return_candidates current_returns = Inr current_returns"
| "return_elements_loop (JStr return_element # rest) return_candidates current_returns =
     (case py_index (py_split return_element '' AS '') 1 of
        Inl e \<Rightarrow> Inl e
      | Inr returnable_element_name \<Rightarrow>
          return_elements_loop rest return_candidates
            (fold (\<lambda>return_candidate.
                     fn_process_returnable_item return_candidate
                       (hd (py_split return_element '' AS '')) returnable_element_name)
               return_candidates current_returns))"
| "return_elements_loop (return_element # rest) return_candidates current_returns =
     Inl AttributeError"

definition fn_analyse_returns ::
  "(string \<times> json) list \<Rightarrow> encoded_method list \<Rightarrow> return_object list
     \<Rightarrow> error + return_object list" where
  "fn_analyse_returns return_object return_candidates current_returns =
     (case map_of return_object ''RETURN'' of
        None \<Rightarrow> Inl KeyError
      | Some (JList returnables) \<Rightarrow>
          return_elements_loop returnables return_candidates current_returns
      | Some returnables \<Rightarrow>
          (case str_in '','' returnables of
             Inl e \<Rightarrow> Inl e
           | Inr has_comma \<Rightarrow>
               if has_comma
               then (case split_of returnables '','' of
                       Inl e \<Rightarrow> Inl e
                     | Inr parts \<Rightarrow>
                         return_elements_loop (map JStr parts) return_candidates
                           current_returns)
               else return_elements_loop [returnables] return_candidates current_returns))"

definition fn_process_search_location_and_returns ::
  "links \<Rightarrow> (string \<times> json) list \<Rightarrow> encoded_method list \<Rightarrow> return_object list
     \<Rightarrow> error + (bool \<times> return_object list)" where
  "fn_process_search_location_and_returns current_links search_object calling_methods
     current_returns =
     (case (case map_of search_object ''SEARCHLOCATION'' of
              None \<Rightarrow> Inr (True, calling_methods)
            | Some (JStr location) \<Rightarrow>
                (case fn_get_methods_satisfying_location_reqs current_links calling_methods
                        location of
                   Inl e \<Rightarrow> Inl e
                 | Inr methods_satisfying_location_requirements \<Rightarrow>
                     if length methods_satisfying_location_requirements > 0
                     then Inr (True, methods_satisfying_location_requirements)
                     else Inr (False, calling_methods))
            | Some _ \<Rightarrow> Inl TypeError) of
        Inl e \<Rightarrow> Inl e
      | Inr (bool_search_satisfied, calling_methods) \<Rightarrow>
          if map_of search_object ''RETURN'' = None
          then Inr (bool_search_satisfied, current_returns)
          else (case fn_analyse_returns search_object calling_methods current_returns of
                  Inl e \<Rightarrow> Inl e
                | Inr current_returns \<Rightarrow> Inr (bool_search_satisfied, current_returns)))"

text \<open>
  The call-site searches. Each alternative of the target is searched in turn;
  the search is satisfied when one of them is.
\<close>

fun calls_to_string_loop ::
  "analysis_utils \<Rightarrow> links \<Rightarrow> (string \<times> json) list \<Rightarrow> string list \<Rightarrow> bool
     \<Rightarrow> return_object list \<Rightarrow> error + (bool \<times> return_object list)" where
  "calls_to_string_loop u current_links string_search_object [] bool_search_satisfied
     current_returns = Inr (bool_search_satisfied, current_returns)"
| "calls_to_string_loop u current_links string_search_object (search_string # rest)
     bool_search_satisfied current_returns =
     (case fn_get_calls_to_string u search_string of
        Inl e \<Rightarrow> Inl e
      | Inr calling_methods \<Rightarrow>
          if length calling_methods = 0
          then calls_to_string_loop u current_links string_search_object rest
                 bool_search_satisfied current_returns
          else (case fn_process_search_location_and_returns current_links
                       string_search_object calling_methods current_returns of
                  Inl e \<Rightarrow> Inl e
                | Inr (bool_one_search_satisfied, current_returns) \<Rightarrow>
                    calls_to_string_loop u current_links string_search_object rest
                      (bool_one_search_satisfied \<or> bool_search_satisfied) current_returns))"

definition fn_search_for_calls_to_string ::
  "analysis_utils \<Rightarrow> links \<Rightarrow> (string \<times> json) list \<Rightarrow> string list
     \<Rightarrow> return_object list \<Rightarrow> error + (bool \<times> return_object list)" where
  "fn_search_for_calls_to_string u current_links string_search_object search_strings
     current_returns =
     calls_to_string_loop u current_links string_search_object search_strings False
       current_returns"

fun calls_to_method_loop ::
  "analysis_utils \<Rightarrow> links \<Rightarrow> (string \<times> json) list \<Rightarrow> string list \<Rightarrow> bool
     \<Rightarrow> return_object list \<Rightarrow> error + (bool \<times> return_object list)" where
  "calls_to_method_loop u current_links method_search_object [] bool_search_satisfied
     current_returns = Inr (bool_search_satisfied, current_returns)"
| "calls_to_method_loop u current_links method_search_object (method_to_search # rest)
     bool_search_satisfied current_returns =
     (case fn_get_class_method_desc_from_string method_to_search of
        Inl e \<Rightarrow> Inl e
      | Inr (class_part, method_part, desc_part) \<Rightarrow>
          (case fn_find_subclasses u class_part of
             Inl e \<Rightarrow> Inl e
           | Inr subclasses \<Rightarrow>
               (let all_classes = class_part # subclasses;
                    calling_methods =
                      concat (map (\<lambda>cls. fn_get_calls_to_method u cls method_part desc_part)
                                all_classes)
                in if length calling_methods \<le> 0
                   then calls_to_method_loop u current_links method_search_object rest
                          bool_search_satisfied current_returns
                   else (case fn_process_search_location_and_returns current_links
                                method_search_object calling_methods current_returns of
                           Inl e \<Rightarrow> Inl e
                         | Inr (bool_one_search_satisfied, current_returns) \<Rightarrow>
                             calls_to_method_loop u current_links method_search_object rest
                               (bool_one_search_satisfied \<or> bool_search_satisfied)
                               current_returns))))"

definition fn_search_for_calls_to_method ::
  "analysis_utils \<Rightarrow> links \<Rightarrow> (string \<times> json) list \<Rightarrow> string list
     \<Rightarrow> return_object list \<Rightarrow> error + (bool \<times> return_object list)" where
  "fn_search_for_calls_to_method u current_links method_search_object methods_to_search
     current_returns =
     calls_to_method_loop u current_links method_search_object methods_to_search False
       current_returns"

fun calls_to_class_loop ::
  "analysis_utils \<Rightarrow> links \<Rightarrow> (string \<times> json) list \<Rightarrow> string list \<Rightarrow> bool
     \<Rightarrow> return_object list \<Rightarrow> error + (bool \<times> return_object list)" where
  "calls_to_class_loop u current_links class_search_object [] bool_search_satisfied
     current_returns = Inr (bool_search_satisfied, current_returns)"
| "calls_to_class_loop u current_links class_search_object (class_to_search # rest)
     bool_search_satisfied current_returns =
     (case fn_find_subclasses u class_to_search of
        Inl e \<Rightarrow> Inl e
      | Inr subclasses \<Rightarrow>
          (let classes_inc_sub = class_to_search # subclasses;
               calling_methods =
                 concat (map (\<lambda>cls. fn_get_calls_to_class u cls) classes_inc_sub)
           in if length calling_methods = 0
              then calls_to_class_loop u current_links class_search_object rest
                     bool_search_satisfied current_returns
              else (case fn_process_search_location_and_returns current_links
                           class_search_object calling_methods current_returns of
                      Inl e \<Rightarrow> Inl e
                    | Inr (bool_one_search_satisfied, current_returns) \<Rightarrow>
                        calls_to_class_loop u current_links class_search_object rest
                          (bool_one_search_satisfied \<or> bool_search_satisfied)
                          current_returns)))"

definition fn_search_for_calls_to_class ::
  "analysis_utils \<Rightarrow> links \<Rightarrow> (string \<times> json) list \<Rightarrow> string list
     \<Rightarrow> return_object list \<Rightarrow> error + (bool \<times> return_object list)" where
  "fn_search_for_calls_to_class u current_links class_search_object classes_to_search
     current_returns =
     calls_to_class_loop u current_links class_search_object classes_to_search False
       current_returns"

text \<open>
  \<open>search_object[key]\<close> in \<open>fn_determine_search_type\<close>: the search object must
  be a dictionary holding the key. Validation requires the target found there
  to be a string; the string operations that follow are modelled on strings
  only, and another JSON value is reported as TypeError.
\<close>

definition search_target :: "json \<Rightarrow> string \<Rightarrow> error + ((string \<times> json) list \<times> string)" where
  "search_target search_object key =
     (case search_object of
        JDict d \<Rightarrow>
          (case map_of d key of
             None \<Rightarrow> Inl KeyError
           | Some (JStr input) \<Rightarrow> Inr (d, input)
           | Some _ \<Rightarrow> Inl TypeError)
      | _ \<Rightarrow> Inl TypeError)"

definition existence_search ::
  "analysis_utils \<Rightarrow> links \<Rightarrow> json \<Rightarrow> string \<Rightarrow> (analysis_utils \<Rightarrow> string list \<Rightarrow> error + bool)
     \<Rightarrow> return_object list \<Rightarrow> error + (bool \<times> return_object list)" where
  "existence_search u current_links search_object key fn_to_execute current_returns =
     (case search_target search_object key of
        Inl e \<Rightarrow> Inl e
      | Inr (d, input) \<Rightarrow>
          (case fn_identify_search_items u current_links key input of
             Inl e \<Rightarrow> Inl e
           | Inr items_to_search \<Rightarrow>
               (case fn_to_execute u items_to_search of
                  Inl e \<Rightarrow> Inl e
                | Inr b \<Rightarrow> Inr (b, current_returns))))"

definition call_site_search ::
  "analysis_utils \<Rightarrow> links \<Rightarrow> json \<Rightarrow> string
     \<Rightarrow> (analysis_utils \<Rightarrow> links \<Rightarrow> (string \<times> json) list \<Rightarrow> string list
          \<Rightarrow> return_object list \<Rightarrow> error + (bool \<times> return_object list))
     \<Rightarrow> return_object list \<Rightarrow> error + (bool \<times> return_object list)" where
  "call_site_search u current_links search_object key fn_to_execute current_returns =
     (case search_target search_object key of
        Inl e \<Rightarrow> Inl e
      | Inr (d, input) \<Rightarrow>
          (case fn_identify_search_items u current_links key input of
             Inl e \<Rightarrow> Inl e
           | Inr items_to_search \<Rightarrow>
               fn_to_execute u current_links d items_to_search current_returns))"

text \<open>
  \<open>fn_determine_search_type\<close>. With an unknown search type \<open>fn_to_execute\<close>
  stays None, and calling it raises TypeError.
\<close>

definition fn_determine_search_type ::
  "analysis_utils \<Rightarrow> links \<Rightarrow> json \<Rightarrow> json \<Rightarrow> return_object list
     \<Rightarrow> error + (bool \<times> return_object list)" where
  "fn_determine_search_type u current_links search_type search_object current_returns =
     (if search_type = JStr ''SEARCHFORSTRING''
      then existence_search u current_links search_object ''STRING''
             fn_search_for_presence_of_string current_returns
      else if search_type = JStr ''SEARCHFORCALLTOSTRING''
      then call_site_search u current_links search_object ''STRING''
             fn_search_for_calls_to_string current_returns
      else if search_type = JStr ''SEARCHFORMETHOD''
      then existence_search u current_links search_object ''METHOD''
             fn_search_for_presence_of_method current_returns
      else if search_type = JStr ''SEARCHFORCALLTOMETHOD''
      then call_site_search u current_links search_object ''METHOD''
             fn_search_for_calls_to_method current_returns
      else if search_type = JStr ''SEARCHFORCLASS''
      then existence_search u current_links search_object ''CLASS''
             fn_search_for_presence_of_class current_returns
      else if search_type = JStr ''SEARCHFORCALLTOCLASS''
      then call_site_search u current_links search_object ''CLASS''
             fn_search_for_calls_to_class current_returns
      else Inl TypeError)"

text \<open>
  \<open>fn_process_individual_search_item\<close> receives the search object as
  \<open>search_dictionary\<close> but loops over \<open>self.search_template\<close>, the whole SEARCH
  section, and subscripts it with each value the loop yields.
\<close>

fun search_items_loop ::
  "analysis_utils \<Rightarrow> links \<Rightarrow> json \<Rightarrow> json list \<Rightarrow> nat \<Rightarrow> nat \<Rightarrow> return_object list
     \<Rightarrow> error + (bool \<times> return_object list)" where
  "search_items_loop u current_links self_search_template []
     total_searches_to_perform satisfied_searches current_returns =
     Inr (total_searches_to_perform = satisfied_searches, current_returns)"
| "search_items_loop u current_links self_search_template (search_item # rest)
     total_searches_to_perform satisfied_searches current_returns =
     (case py_getitem self_search_template search_item of
        Inl e \<Rightarrow> Inl e
      | Inr search_object \<Rightarrow>
          (case fn_determine_search_type u current_links search_item search_object
                  current_returns of
             Inl e \<Rightarrow> Inl e
           | Inr (bool_search_satisfied, current_returns) \<Rightarrow>
               search_items_loop u current_links self_search_template rest
                 (total_searches_to_perform + 1)
                 (if bool_search_satisfied then satisfied_searches + 1
                  else satisfied_searches)
                 current_returns))"

definition fn_process_individual_search_item ::
  "analysis_utils \<Rightarrow> links \<Rightarrow> json \<Rightarrow> json \<Rightarrow> return_object list
     \<Rightarrow> error + (bool \<times> return_object list)" where
  "fn_process_individual_search_item u current_links self_search_template search_dictionary
     current_returns =
     (case py_iter self_search_template of
        Inl e \<Rightarrow> Inl e
      | Inr search_items \<Rightarrow>
          search_items_loop u current_links self_search_template search_items 0 0
            current_returns)"

text \<open>The loop of \<open>fn_perform_code_search\<close> over a SEARCH given as a list.\<close>

fun search_list_loop ::
  "analysis_utils \<Rightarrow> links \<Rightarrow> json \<Rightarrow> json list \<Rightarrow> nat \<Rightarrow> nat \<Rightarrow> return_object list
     \<Rightarrow> error + (bool \<times> return_object list)" where
  "search_list_loop u current_links self_search_template []
     total_searches_to_perform satisfied_searches current_returns =
     Inr (satisfied_searches = total_searches_to_perform, current_returns)"
| "search_list_loop u current_links self_search_template (search_item # rest)
     total_searches_to_perform satisfied_searches current_returns =
     (case fn_process_individual_search_item u current_links self_search_template
             search_item current_returns of
        Inl e \<Rightarrow> Inl e
      | Inr (bool_one_satisfied, current_returns) \<Rightarrow>
          search_list_loop u current_links self_search_template rest
            (total_searches_to_perform + 1)
            (if bool_one_satisfied then satisfied_searches + 1 else satisfied_searches)
            current_returns)"

definition fn_perform_code_search ::
  "analysis_utils \<Rightarrow> json \<Rightarrow> links \<Rightarrow> error + (bool \<times> links)" where
  "fn_perform_code_search u code_search_template current_links =
     (case (case code_search_template of
              JDict d \<Rightarrow>
                fn_process_individual_search_item u current_links code_search_template
                  code_search_template []
            | JList search_items \<Rightarrow>
                search_list_loop u current_links code_search_template search_items 0 0 []
            | _ \<Rightarrow> Inr (False, [])) of
        Inl e \<Rightarrow> Inl e
      | Inr (bool_satisfied, current_returns) \<Rightarrow>
          if bool_satisfied
          then (case fn_convert_returns_to_links current_returns current_links of
                  (Some e, l) \<Rightarrow> Inl e
                | (None, l) \<Rightarrow> Inr (bool_satisfied, l))
          else Inr (bool_satisfied, current_links))"

section \<open>Trace engine, Basic mode (code\_analyser\_trace.py)\<close>

definition TRACE_FORWARD :: string where "TRACE_FORWARD = ''FORWARD''"
definition TRACE_REVERSE :: string where "TRACE_REVERSE = ''REVERSE''"
definition TRACE_TYPE_BASIC :: string where "TRACE_TYPE_BASIC = ''BASIC''"
definition TRACE_TYPE_ADVANCED :: string where "TRACE_TYPE_ADVANCED = ''ADVANCED''"

datatype stop_condition_value = STOP_CONDITION_TRUE | STOP_CONDITION_FALSE | STOP_CONDITION_MAYBE

text \<open>
  The attributes of the \<open>CodeTrace\<close> object that are fixed during one
  traversal, and those that the traversal changes.
\<close>

record trace_params =
  trace_direction :: string
  trace_length_max :: int
  to_class_method :: string
  trace_to_list :: "string list"
  hardcoded_traceto :: bool

record trace_state =
  checked_methods :: "string set"
  stop_condition :: stop_condition_value
  output_chains :: "string list"

type_synonym trace_point = "string \<times> string \<times> string"

definition fn_check_stop_condition ::
  "trace_params \<Rightarrow> string \<Rightarrow> stop_condition_value \<Rightarrow> error + stop_condition_value" where
  "fn_check_stop_condition p check_value stop =
     (let check_value = (if to_class_method p = ''<class>''
                         then hd (py_split check_value ''->'') else check_value)
      in if check_value \<in> set (trace_to_list p) then Inr STOP_CONDITION_TRUE
         else if \<not> hardcoded_traceto p then Inr stop
         else if length (trace_to_list p) > 1 then Inr stop
         else (case trace_to_list p of
                 [] \<Rightarrow> Inl IndexError
               | trace_to_item # _ \<Rightarrow>
                   if to_class_method p = ''<class>'' \<and> py_in ''*'' trace_to_item
                   then (if py_in (py_replace trace_to_item ''*'' '''') check_value
                         then Inr STOP_CONDITION_TRUE else Inr STOP_CONDITION_FALSE)
                   else if \<not> py_in ''->'' trace_to_item then Inr stop
                   else if \<not> py_in ''->'' check_value then Inr stop
                   else if \<not> py_in ''('' trace_to_item then Inr stop
                   else if \<not> py_in ''('' check_value then Inr stop
                   else if py_split trace_to_item ''->'' ! 1 = py_split check_value ''->'' ! 1
                   then Inr STOP_CONDITION_MAYBE
                   else Inr stop))"

text \<open>
  The special cases: a caller named \<open>doInBackground\<close> in a subclass of
  \<open>AsyncTask\<close> stands for the \<open>execute\<close> methods, and the other way round.
  \<open>fn_handle_special_case_reverse\<close> returns None when no superclass is in the
  table.
\<close>

definition special_case_object_list_reverse :: "(string \<times> (string \<times> string list) list) list" where
  "special_case_object_list_reverse =
     [(''doInBackground'',
       [(''Landroid/os/AsyncTask;'',
         [''execute([Ljava/lang/Object;)Landroid/os/AsyncTask;'',
          ''execute(Ljava/lang/Runnable;)''])])]"

definition special_case_object_list_forward :: "(string \<times> string) list" where
  "special_case_object_list_forward =
     [(''execute([Ljava/lang/Object;)Landroid/os/AsyncTask;'', ''doInBackground''),
      (''execute(Ljava/lang/Runnable;)V'', ''doInBackground'')]"

fun first_relevant :: "(string \<times> string list) list \<Rightarrow> string list \<Rightarrow> string list option" where
  "first_relevant relevant_object [] = None"
| "first_relevant relevant_object (superclass # rest) =
     (case map_of relevant_object (py_strip superclass) of
        Some v \<Rightarrow> Some v
      | None \<Rightarrow> first_relevant relevant_object rest)"

definition fn_handle_special_case_reverse ::
  "analysis_utils \<Rightarrow> string \<Rightarrow> string \<Rightarrow> string \<Rightarrow> error + string list option" where
  "fn_handle_special_case_reverse u class_part method_part desc_part =
     (case map_of special_case_object_list_reverse method_part of
        None \<Rightarrow> Inl KeyError
      | Some relevant_object \<Rightarrow>
          (case fn_find_superclasses u class_part of
             Inl e \<Rightarrow> Inl e
           | Inr all_superclasses \<Rightarrow> Inr (first_relevant relevant_object all_superclasses)))"

text \<open>
  The calls of \<open>fn_analyse_trace_point\<close> that \<open>fn_trace_reverse\<close> makes for one
  starting point, in the order of its two inner loops (classes, then method
  descriptors). The list ends in the error that cuts the loops short: a
  descriptor without parenthesis (IndexError), or None in place of the list of
  descriptors (TypeError).
\<close>

definition descriptor_points :: "string \<Rightarrow> string list \<Rightarrow> (error + trace_point) list" where
  "descriptor_points class_part method_descriptors =
     map (\<lambda>method_descriptor.
            case py_index (py_split method_descriptor ''('') 1 of
              Inl e \<Rightarrow> Inl e
            | Inr d \<Rightarrow> Inr (class_part, hd (py_split method_descriptor ''(''), ''('' @ d))
         method_descriptors"

definition starting_point_reverse :: "analysis_utils \<Rightarrow> encoded_method \<Rightarrow> (error + trace_point) list" where
  "starting_point_reverse u starting_point =
     (case fn_get_class_method_desc_from_method starting_point of
        (class_part, method_part, desc_part) \<Rightarrow>
          (case fn_find_subclasses u class_part of
             Inl e \<Rightarrow> [Inl e]
           | Inr subclasses \<Rightarrow>
               (let class_parts = class_part # subclasses
                in if method_part \<in> fst ` set special_case_object_list_reverse
                   then (case fn_handle_special_case_reverse u class_part method_part
                                desc_part of
                           Inl e \<Rightarrow> [Inl e]
                         | Inr None \<Rightarrow> [Inl TypeError]
                         | Inr (Some method_descriptors) \<Rightarrow>
                             concat (map (\<lambda>class_part.
                               descriptor_points class_part method_descriptors) class_parts))
                   else concat (map (\<lambda>class_part.
                          descriptor_points class_part [method_part @ desc_part])
                          class_parts))))"

text \<open>
  The starting points of \<open>fn_trace_reverse\<close> (the callers of the method and of
  its overrides in subclasses) and the calls made for them.
\<close>

definition reverse_trace_points ::
  "analysis_utils \<Rightarrow> trace_point \<Rightarrow> error + (error + trace_point) list" where
  "reverse_trace_points u point =
     (case point of
        (class_part, method_part, desc_part) \<Rightarrow>
          (case fn_find_subclasses u class_part of
             Inl e \<Rightarrow> Inl e
           | Inr all_subclasses \<Rightarrow>
               (let starting_points =
                      fn_get_calls_to_method u class_part method_part desc_part
                      @ concat (map (\<lambda>subclass.
                          fn_get_calls_to_method u subclass method_part desc_part)
                          all_subclasses)
                in Inr (concat (map (starting_point_reverse u) starting_points)))))"

definition starting_point_forward :: "encoded_method \<Rightarrow> trace_point" where
  "starting_point_forward starting_point =
     (case fn_get_class_method_desc_from_method starting_point of
        (class_part, method_part, desc_part) \<Rightarrow>
          (case map_of special_case_object_list_forward (method_part @ desc_part) of
             Some special \<Rightarrow> (class_part, special, ''.'')
           | None \<Rightarrow> (class_part, method_part, desc_part)))"

definition forward_trace_points ::
  "analysis_utils \<Rightarrow> trace_point \<Rightarrow> error + (error + trace_point) list" where
  "forward_trace_points u point =
     (case point of
        (class_part, method_part, desc_part) \<Rightarrow>
          Inr (map (\<lambda>starting_point. Inr (starting_point_forward starting_point))
                 (fn_get_calls_from_method u class_part method_part desc_part)))"

definition next_trace_points ::
  "analysis_utils \<Rightarrow> trace_params \<Rightarrow> trace_point \<Rightarrow> error + (error + trace_point) list" where
  "next_trace_points u p point =
     (if trace_direction p = TRACE_FORWARD then forward_trace_points u point
      else reverse_trace_points u point)"

definition compound_name_of :: "trace_point \<Rightarrow> string" where
  "compound_name_of point =
     (case point of (class_part, method_part, desc_part) \<Rightarrow>
        class_part @ ''->'' @ method_part @ desc_part)"

definition extend_chain :: "string \<Rightarrow> string \<Rightarrow> string" where
  "extend_chain trace_chain compound_name =
     (if trace_chain = [] then compound_name else trace_chain @ '','' @ compound_name)"

text \<open>
  The part of \<open>fn_analyse_trace_point\<close> before the recursive call: the test
  and update of \<open>checked_methods\<close>, the stop condition, and the test of the
  chain length. It returns the new state and, when the traversal goes on from
  this point, the chain that is passed on. The chain is extended when the stop
  condition is True or Maybe, and only then.
\<close>

definition trace_point_visit ::
  "trace_params \<Rightarrow> trace_point \<Rightarrow> string \<Rightarrow> trace_state
     \<Rightarrow> error + (trace_state \<times> string option)" where
  "trace_point_visit p point trace_chain st =
     (let compound_name = compound_name_of point
      in if compound_name \<in> checked_methods st then Inr (st, None)
         else
           (let st = st\<lparr>checked_methods := insert compound_name (checked_methods st)\<rparr>
            in case fn_check_stop_condition p compound_name (stop_condition st) of
                 Inl e \<Rightarrow> Inl e
               | Inr STOP_CONDITION_TRUE \<Rightarrow>
                   (let st = st\<lparr>stop_condition := STOP_CONDITION_FALSE\<rparr>;
                        trace_chain = extend_chain trace_chain compound_name
                    in if trace_chain \<in> set (output_chains st) then Inr (st, None)
                       else Inr (st\<lparr>output_chains := output_chains st @ [trace_chain]\<rparr>,
                                 None))
               | Inr STOP_CONDITION_MAYBE \<Rightarrow>
                   (let st = st\<lparr>stop_condition := STOP_CONDITION_FALSE\<rparr>;
                        trace_chain = extend_chain trace_chain (''|MAYBE|'' @ compound_name)
                    in if trace_chain \<in> set (output_chains st) then Inr (st, None)
                       else
                         (let st = st\<lparr>output_chains := output_chains st @ [trace_chain]\<rparr>
                          in if int (length (py_split trace_chain '','')) > trace_length_max p
                             then Inr (st, None)
                             else Inr (st, Some trace_chain)))
               | Inr STOP_CONDITION_FALSE \<Rightarrow>
                   (let st = st\<lparr>stop_condition := STOP_CONDITION_FALSE\<rparr>
                    in if int (length (py_split trace_chain '','')) > trace_length_max p
                       then Inr (st, None)
                       else Inr (st, Some trace_chain))))"

text \<open>
  \<open>fn_analyse_trace_point\<close> and the loop of \<open>fn_trace_reverse\<close> or
  \<open>fn_trace_forward\<close> that calls it for each point, which call each other. The
  first argument is the depth of recursion allowed: Python raises
  RecursionError when its limit is reached (the error is given the name of the
  function whose recursion reached it).
\<close>

fun fn_analyse_trace_point ::
  "nat \<Rightarrow> analysis_utils \<Rightarrow> trace_params \<Rightarrow> trace_point \<Rightarrow> string \<Rightarrow> trace_state
     \<Rightarrow> error + trace_state"
and trace_points_loop ::
  "nat \<Rightarrow> analysis_utils \<Rightarrow> trace_params \<Rightarrow> (error + trace_point) list \<Rightarrow> string
     \<Rightarrow> trace_state \<Rightarrow> error + trace_state" where
  "fn_analyse_trace_point 0 u p point trace_chain st =
     Inl (RecursionError ''fn_analyse_trace_point'')"
| "fn_analyse_trace_point (Suc n) u p point trace_chain st =
     (case trace_point_visit p point trace_chain st of
        Inl e \<Rightarrow> Inl e
      | Inr (st, None) \<Rightarrow> Inr st
      | Inr (st, Some trace_chain) \<Rightarrow>
          (case next_trace_points u p point of
             Inl e \<Rightarrow> Inl e
           | Inr points \<Rightarrow> trace_points_loop n u p points trace_chain st))"
| "trace_points_loop n u p [] trace_chain st = Inr st"
| "trace_points_loop n u p (Inl e # rest) trace_chain st = Inl e"
| "trace_points_loop n u p (Inr point # rest) trace_chain st =
     (case fn_analyse_trace_point n u p point trace_chain st of
        Inl e \<Rightarrow> Inl e
      | Inr st \<Rightarrow> trace_points_loop n u p rest trace_chain st)"

definition fn_determine_class_method_desc :: "string \<Rightarrow> string \<Rightarrow> error + trace_point" where
  "fn_determine_class_method_desc trace_from trace_from_type =
     (case fn_get_class_method_desc_from_string trace_from of
        Inl e \<Rightarrow> Inl e
      | Inr (class_part, method_part, desc_part) \<Rightarrow>
          if trace_from_type = ''<class>'' then Inr (class_part, ''.'', ''.'')
          else Inr (class_part, method_part, desc_part))"

text \<open>
  \<open>fn_trace_handler\<close>: one traversal for each start point, each with a fresh
  set of checked methods; the chains found are added to \<open>output_chains\<close>. The
  chain starts as the start point itself.
\<close>

fun trace_from_loop ::
  "nat \<Rightarrow> analysis_utils \<Rightarrow> trace_params \<Rightarrow> string \<Rightarrow> string list \<Rightarrow> string list
     \<Rightarrow> error + string list" where
  "trace_from_loop n u p from_class_method [] found_chains = Inr found_chains"
| "trace_from_loop n u p from_class_method (trace_from # rest) found_chains =
     (case fn_determine_class_method_desc trace_from from_class_method of
        Inl e \<Rightarrow> Inl e
      | Inr point \<Rightarrow>
          (case next_trace_points u p point of
             Inl e \<Rightarrow> Inl e
           | Inr points \<Rightarrow>
               (case trace_points_loop n u p points trace_from
                       \<lparr>checked_methods = {}, stop_condition = STOP_CONDITION_FALSE,
                        output_chains = found_chains\<rparr> of
                  Inl e \<Rightarrow> Inl e
                | Inr st \<Rightarrow> trace_from_loop n u p from_class_method rest (output_chains st))))"

definition fn_trace_handler ::
  "nat \<Rightarrow> analysis_utils \<Rightarrow> trace_params \<Rightarrow> string \<Rightarrow> string list \<Rightarrow> string list
     \<Rightarrow> error + (bool \<times> string list)" where
  "fn_trace_handler n u p from_class_method trace_from_list found_chains =
     (case trace_from_loop n u p from_class_method trace_from_list found_chains of
        Inl e \<Rightarrow> Inl e
      | Inr found_chains \<Rightarrow> Inr (found_chains \<noteq> [], found_chains))"

definition fn_get_trace_type :: "string \<Rightarrow> string \<times> string" where
  "fn_get_trace_type string =
     (if py_in '':'' string
      then (let trace_type = hd (py_split string '':'')
            in (trace_type, drop (length trace_type + 1) string))
      else if py_in ''->'' string then (''<method>'', string)
      else (''<class>'', string))"

text \<open>
  \<open>fn_get_trace_items\<close>, with the value it leaves in \<open>hardcoded_traceto\<close>.
\<close>

definition fn_get_trace_items ::
  "links \<Rightarrow> string \<Rightarrow> string \<Rightarrow> error + (string list \<times> bool)" where
  "fn_get_trace_items current_links string trace_type =
     (case string of
        [] \<Rightarrow> Inl IndexError
      | c # _ \<Rightarrow>
          if c = CHR ''@''
          then (if \<not> py_in '']'' string
                then Inr (linked_item_strings [] [] trace_type
                            (fn_get_linked_items current_links string), False)
                else
                  (let split_for_link = py_split string '']'';
                       remaining_string = split_for_link ! 1;
                       second_split = py_split (split_for_link ! 0) ''[''
                   in case py_index second_split 1 of
                        Inl e \<Rightarrow> Inl e
                      | Inr subpart \<Rightarrow>
                          Inr (linked_item_strings (py_replace subpart '' '' '''')
                                 remaining_string trace_type
                                 (fn_get_linked_items current_links (second_split ! 0)),
                               False)))
          else Inr ([if trace_type = ''<class>'' then hd (py_split string ''->'') else string],
                    True))"

definition fn_trace_through_code ::
  "nat \<Rightarrow> analysis_utils \<Rightarrow> links \<Rightarrow> string \<Rightarrow> int \<Rightarrow> string \<Rightarrow> string \<Rightarrow> string list
     \<Rightarrow> error + (bool \<times> string list)" where
  "fn_trace_through_code n u current_links direction length_max trace_from_string
     trace_to_string found_chains =
     (case fn_get_trace_type trace_from_string of
        (from_type, trace_from_string) \<Rightarrow>
     (case fn_get_trace_type trace_to_string of
        (to_type, trace_to_string) \<Rightarrow>
     (case fn_get_trace_items current_links trace_from_string from_type of
        Inl e \<Rightarrow> Inl e
      | Inr (trace_from_list, hardcoded_from) \<Rightarrow>
     (case fn_get_trace_items current_links trace_to_string to_type of
        Inl e \<Rightarrow> Inl e
      | Inr (trace_to_items, hardcoded_to) \<Rightarrow>
          if trace_from_list = [] \<or> trace_to_items = [] then Inr (False, found_chains)
          else fn_trace_handler n u
                 \<lparr>trace_direction = direction, trace_length_max = length_max,
                  to_class_method = to_type, trace_to_list = trace_to_items,
                  hardcoded_traceto = hardcoded_to\<rparr>
                 from_type trace_from_list found_chains))))"

text \<open>
  The end points of a trace object. Validation requires TRACEFROM and TRACETO to
  be present; the string operations are modelled on strings, and another JSON
  value is reported as TypeError.
\<close>

definition trace_end_points :: "(string \<times> json) list \<Rightarrow> string \<Rightarrow> error + string list" where
  "trace_end_points trace_template key =
     (case map_of trace_template key of
        None \<Rightarrow> Inl KeyError
      | Some (JStr s) \<Rightarrow> Inr (if py_in '' OR '' s then py_split s '' OR '' else [s])
      | Some _ \<Rightarrow> Inl TypeError)"

definition fn_enumerate_trace_source_sinks ::
  "(string \<times> json) list \<Rightarrow> error + (string list \<times> string list)" where
  "fn_enumerate_trace_source_sinks trace_template =
     (case trace_end_points trace_template ''TRACEFROM'' of
        Inl e \<Rightarrow> Inl e
      | Inr trace_from_string_list \<Rightarrow>
          (case trace_end_points trace_template ''TRACETO'' of
             Inl e \<Rightarrow> Inl e
           | Inr trace_to_string_list \<Rightarrow> Inr (trace_from_string_list, trace_to_string_list)))"

text \<open>
  \<open>int(x)\<close> of a value loaded from JSON, which \<open>fn_get_trace_parameters\<close> applies
  to TRACELENGTHMAX. A boolean counts as 0 or 1. A string is read as a decimal
  numeral: the white space around it is ignored, a sign may come first, and
  single underscores may separate the digits; any other string raises
  ValueError.
\<close>

definition is_digit :: "char \<Rightarrow> bool" where
  "is_digit c \<longleftrightarrow> (let n = of_char c :: nat in 0x30 \<le> n \<and> n \<le> 0x39)"

definition int_space :: "char \<Rightarrow> bool" where
  "int_space c \<longleftrightarrow>
     c \<in> set [CHR '' '', CHR 0x09, CHR 0x0A, CHR 0x0B, CHR 0x0C, CHR 0x0D, CHR 0x85, CHR 0xA0]"

definition digits_value :: "string \<Rightarrow> nat" where
  "digits_value digits =
     fold (\<lambda>c n. if c = CHR ''_'' then n else 10 * n + (of_char c - 48)) digits 0"

definition int_of_string :: "string \<Rightarrow> error + int" where
  "int_of_string s =
     (let body = rev (dropWhile int_space (rev (dropWhile int_space s)));
          negative = (body \<noteq> [] \<and> hd body = CHR ''-'');
          digits = (if body \<noteq> [] \<and> hd body \<in> set [CHR ''+'', CHR ''-''] then tl body
                    else body)
      in if digits \<noteq> [] \<and> is_digit (hd digits) \<and> is_digit (last digits)
            \<and> list_all (\<lambda>c. is_digit c \<or> c = CHR ''_'') digits \<and> \<not> py_in ''__'' digits
         then Inr (if negative then - int (digits_value digits) else int (digits_value digits))
         else Inl ValueError)"

fun py_int :: "json \<Rightarrow> error + int" where
  "py_int (JInt i) = Inr i"
| "py_int (JBool b) = Inr (if b then 1 else 0)"
| "py_int (JStr s) = int_of_string s"
| "py_int obj = Inl TypeError"

definition fn_get_trace_parameters ::
  "int \<Rightarrow> (string \<times> json) list \<Rightarrow> error + (int \<times> string \<times> json)" where
  "fn_get_trace_parameters default_trace_length_max trace_template =
     (let direction = (if map_of trace_template ''TRACEDIRECTION'' = Some (JStr TRACE_FORWARD)
                       then TRACE_FORWARD else TRACE_REVERSE);
          trace_type = (case map_of trace_template ''TRACETYPE'' of
                          None \<Rightarrow> JStr TRACE_TYPE_BASIC
                        | Some t \<Rightarrow> t)
      in case map_of trace_template ''TRACELENGTHMAX'' of
           None \<Rightarrow> Inr (default_trace_length_max, direction, trace_type)
         | Some v \<Rightarrow>
             (case py_int v of
                Inl e \<Rightarrow> Inl e
              | Inr i \<Rightarrow> Inr (i, direction, trace_type)))"

text \<open>
  The RETURN of a trace: every output chain is bound under the identifier, its
  nodes in reverse order when the trace direction is REVERSE.
\<close>

definition chain_output_str :: "string \<Rightarrow> string \<Rightarrow> string" where
  "chain_output_str direction chain_string =
     (let chain = py_split chain_string '','';
          chain = (if direction = TRACE_REVERSE then rev chain else chain)
      in fold (\<lambda>chain_node output_str.
                 if output_str = [] then py_strip chain_node
                 else output_str @ '','' @ py_strip chain_node) chain [])"

definition CodeTrace_fn_analyse_returns ::
  "(string \<times> json) list \<Rightarrow> string \<Rightarrow> string list \<Rightarrow> return_object list
     \<Rightarrow> error + return_object list" where
  "CodeTrace_fn_analyse_returns trace_template direction found_chains current_returns =
     (case map_of trace_template ''RETURN'' of
        None \<Rightarrow> Inl KeyError
      | Some (JStr returnables) \<Rightarrow>
          (case py_index (py_split returnables '' AS '') 1 of
             Inl e \<Rightarrow> Inl e
           | Inr returnable_elements_name \<Rightarrow>
               Inr (current_returns @
                      map (\<lambda>chain_string.
                             [(returnable_elements_name,
                               chain_output_str direction chain_string)]) found_chains))
      | Some _ \<Rightarrow> Inl AttributeError)"

text \<open>The two loops over the start and end points of a trace object.\<close>

fun trace_to_loop ::
  "nat \<Rightarrow> analysis_utils \<Rightarrow> links \<Rightarrow> string \<Rightarrow> int \<Rightarrow> string \<Rightarrow> string list \<Rightarrow> bool
     \<Rightarrow> string list \<Rightarrow> error + (bool \<times> string list)" where
  "trace_to_loop n u l direction length_max trace_from_string_element [] bool_satisfied
     found_chains = Inr (bool_satisfied, found_chains)"
| "trace_to_loop n u l direction length_max trace_from_string_element
     (trace_to_string_element # rest) bool_satisfied found_chains =
     (case fn_trace_through_code n u l direction length_max trace_from_string_element
             trace_to_string_element found_chains of
        Inl e \<Rightarrow> Inl e
      | Inr (bool_single_trace_satisfied, found_chains) \<Rightarrow>
          trace_to_loop n u l direction length_max trace_from_string_element rest
            (bool_single_trace_satisfied \<or> bool_satisfied) found_chains)"

fun trace_from_to_loop ::
  "nat \<Rightarrow> analysis_utils \<Rightarrow> links \<Rightarrow> string \<Rightarrow> int \<Rightarrow> string list \<Rightarrow> string list \<Rightarrow> bool
     \<Rightarrow> string list \<Rightarrow> error + (bool \<times> string list)" where
  "trace_from_to_loop n u l direction length_max [] trace_to_string_list bool_satisfied
     found_chains = Inr (bool_satisfied, found_chains)"
| "trace_from_to_loop n u l direction length_max (trace_from_string_element # rest)
     trace_to_string_list bool_satisfied found_chains =
     (case trace_to_loop n u l direction length_max trace_from_string_element
             trace_to_string_list bool_satisfied found_chains of
        Inl e \<Rightarrow> Inl e
      | Inr (bool_satisfied, found_chains) \<Rightarrow>
          trace_from_to_loop n u l direction length_max rest trace_to_string_list
            bool_satisfied found_chains)"

text \<open>
  \<open>fn_process_individual_trace_list_item\<close>. The Advanced mode is another
  class (code\_analyser\_trace\_adv.py); its entry point is the parameter
  \<open>fn_start_adv_trace\<close>.
\<close>

definition fn_process_individual_trace_list_item ::
  "nat \<Rightarrow> analysis_utils \<Rightarrow> links \<Rightarrow> int \<Rightarrow> ((string \<times> json) list \<Rightarrow> error + bool)
     \<Rightarrow> (string \<times> json) list \<Rightarrow> string list \<Rightarrow> return_object list
     \<Rightarrow> error + (bool \<times> string list \<times> return_object list)" where
  "fn_process_individual_trace_list_item n u l default_trace_length_max fn_start_adv_trace
     trace_dictionary found_chains current_returns =
     (case fn_get_trace_parameters default_trace_length_max trace_dictionary of
        Inl e \<Rightarrow> Inl e
      | Inr (length_max, direction, trace_type) \<Rightarrow>
          if trace_type = JStr TRACE_TYPE_ADVANCED
          then (case fn_start_adv_trace trace_dictionary of
                  Inl e \<Rightarrow> Inl e
                | Inr bool_adv_trace_output \<Rightarrow>
                    Inr (bool_adv_trace_output, found_chains, current_returns))
          else
            (case fn_enumerate_trace_source_sinks trace_dictionary of
               Inl e \<Rightarrow> Inl e
             | Inr (trace_from_string_list, trace_to_string_list) \<Rightarrow>
                 (case trace_from_to_loop n u l direction length_max trace_from_string_list
                         trace_to_string_list False found_chains of
                    Inl e \<Rightarrow> Inl e
                  | Inr (bool_satisfied, found_chains) \<Rightarrow>
                      if bool_satisfied \<and> map_of trace_dictionary ''RETURN'' \<noteq> None
                      then (case CodeTrace_fn_analyse_returns trace_dictionary direction
                                   found_chains current_returns of
                              Inl e \<Rightarrow> Inl e
                            | Inr current_returns \<Rightarrow>
                                Inr (bool_satisfied, found_chains, current_returns))
                      else Inr (bool_satisfied, found_chains, current_returns))))"

fun trace_list_loop ::
  "nat \<Rightarrow> analysis_utils \<Rightarrow> links \<Rightarrow> int \<Rightarrow> ((string \<times> json) list \<Rightarrow> error + bool)
     \<Rightarrow> json list \<Rightarrow> nat \<Rightarrow> nat \<Rightarrow> string list \<Rightarrow> return_object list
     \<Rightarrow> error + (bool \<times> string list \<times> return_object list)" where
  "trace_list_loop n u l dmax adv [] total_traces satisfied_traces found_chains current_returns =
     Inr (satisfied_traces = total_traces, found_chains, current_returns)"
| "trace_list_loop n u l dmax adv (JDict trace_item # rest) total_traces satisfied_traces
     found_chains current_returns =
     (case fn_process_individual_trace_list_item n u l dmax adv trace_item found_chains
             current_returns of
        Inl e \<Rightarrow> Inl e
      | Inr (bool_one_satisfied, found_chains, current_returns) \<Rightarrow>
          trace_list_loop n u l dmax adv rest (total_traces + 1)
            (if bool_one_satisfied then satisfied_traces + 1 else satisfied_traces)
            found_chains current_returns)"
| "trace_list_loop n u l dmax adv (trace_item # rest) total_traces satisfied_traces
     found_chains current_returns = Inl TypeError"

text \<open>
  \<open>fn_perform_code_trace\<close>. An item of a TRACE list that is not an object is
  rejected by validation; it is reported as TypeError.
\<close>

definition fn_perform_code_trace ::
  "nat \<Rightarrow> analysis_utils \<Rightarrow> int \<Rightarrow> ((string \<times> json) list \<Rightarrow> error + bool) \<Rightarrow> json \<Rightarrow> links
     \<Rightarrow> error + (bool \<times> links)" where
  "fn_perform_code_trace n u default_trace_length_max fn_start_adv_trace code_trace_template
     current_links =
     (case (case code_trace_template of
              JDict trace_template \<Rightarrow>
                fn_process_individual_trace_list_item n u current_links
                  default_trace_length_max fn_start_adv_trace trace_template [] []
            | JList trace_items \<Rightarrow>
                trace_list_loop n u current_links default_trace_length_max
                  fn_start_adv_trace trace_items 0 0 [] []
            | _ \<Rightarrow> Inr (False, [], [])) of
        Inl e \<Rightarrow> Inl e
      | Inr (bool_satisfied, found_chains, current_returns) \<Rightarrow>
          if bool_satisfied
          then (case fn_convert_returns_to_links current_returns current_links of
                  (Some e, l) \<Rightarrow> Inl e
                | (None, l) \<Rightarrow> Inr (bool_satisfied, l))
          else Inr (bool_satisfied, current_links))"

text \<open>
  Every point that a traversal can pass to \<open>fn_analyse_trace_point\<close> comes from
  a cross reference of the application: from a caller (Reverse) or from a
  callee (Forward). These are the points, with the errors of their loops.
\<close>

definition trace_universe :: "analysis_utils \<Rightarrow> (error + trace_point) list" where
  "trace_universe u =
     concat (map (starting_point_reverse u) (map fst (method_xrefs (androguard_dx u))))
     @ map (\<lambda>m. Inr (starting_point_forward m)) (map snd (method_xrefs (androguard_dx u)))"

definition universe_names :: "analysis_utils \<Rightarrow> string set" where
  "universe_names u =
     set (concat (map (\<lambda>x. case x of Inl e \<Rightarrow> [] | Inr point \<Rightarrow> [compound_name_of point])
                    (trace_universe u)))"




text \<open>
  Two runs on the same application, under the same configuration, may list
  Python's sets in different orders. An order is valid when it lists the
  elements of the set, whatever their order (and repetition). Androguard too
  hands out the classes, the methods and the cross references of an application
  in an order that changes from run to run: the index of the second run has
  the entries of the index of the first, as many classes, and the same two
  functions of \<open>re\<close>. Two results agree when both runs raise, or both return
  the same verdict and, under every identifier, the same set of values.
\<close>

definition valid_set_orders :: "analysis_utils \<Rightarrow> bool" where
  "valid_set_orders u \<longleftrightarrow>
     (\<forall>xs. set (str_set_order u xs) = set xs) \<and> (\<forall>xs. set (method_set_order u xs) = set xs)"

definition same_index :: "bytecode_index \<Rightarrow> bytecode_index \<Rightarrow> bool" where
  "same_index dx1 dx2 \<longleftrightarrow>
     re_match dx1 = re_match dx2 \<and> re_escape dx1 = re_escape dx2
     \<and> length (classes dx1) = length (classes dx2)
     \<and> set (classes dx1) = set (classes dx2)
     \<and> set (methods dx1) = set (methods dx2)
     \<and> set (method_xrefs dx1) = set (method_xrefs dx2)
     \<and> set (class_xrefs dx1) = set (class_xrefs dx2)
     \<and> set (string_xrefs dx1) = set (string_xrefs dx2)"

definition same_application :: "analysis_utils \<Rightarrow> analysis_utils \<Rightarrow> bool" where
  "same_application u1 u2 \<longleftrightarrow>
     same_index (androguard_dx u1) (androguard_dx u2)
     \<and> keep_user_interaction u1 = keep_user_interaction u2"

definition agree :: "('a \<Rightarrow> 'b \<Rightarrow> bool) \<Rightarrow> error + 'a \<Rightarrow> error + 'b \<Rightarrow> bool" where
  "agree P r1 r2 =
     (case r1 of
        Inl e1 \<Rightarrow> (case r2 of Inl e2 \<Rightarrow> True | Inr b \<Rightarrow> False)
      | Inr a \<Rightarrow> (case r2 of Inl e2 \<Rightarrow> False | Inr b \<Rightarrow> P a b))"

definition same_contents :: "bool \<times> links \<Rightarrow> bool \<times> links \<Rightarrow> bool" where
  "same_contents r1 r2 \<longleftrightarrow>
     fst r1 = fst r2
     \<and> (\<forall>k. set (fn_get_linked_items (snd r1) k) = set (fn_get_linked_items (snd r2) k))"

text \<open>
  To compare two runs, the call-site searches are read in two parts. The first
  part of \<open>fn_process_search_location_and_returns\<close> is the location filter
  with its verdict. The loops of \<open>fn_search_for_calls_to_method\<close> and
  \<open>fn_search_for_calls_to_class\<close> have one shape: every alternative of the
  target adds its verdict and its bindings to those of the alternatives before
  it; what one alternative adds is what the loop returns for it alone.
\<close>

definition location_part ::
  "links \<Rightarrow> (string \<times> json) list \<Rightarrow> encoded_method list
     \<Rightarrow> error + (bool \<times> encoded_method list)" where
  "location_part l obj ms =
     (case map_of obj ''SEARCHLOCATION'' of
              None \<Rightarrow> Inr (True, ms)
            | Some (JStr location) \<Rightarrow>
                (case fn_get_methods_satisfying_location_reqs l ms
                        location of
                   Inl e \<Rightarrow> Inl e
                 | Inr methods_satisfying_location_requirements \<Rightarrow>
                     if length methods_satisfying_location_requirements > 0
                     then Inr (True, methods_satisfying_location_requirements)
                     else Inr (False, ms))
            | Some _ \<Rightarrow> Inl TypeError)"

fun candidates_loop ::
  "('c \<Rightarrow> error + (bool \<times> return_object list)) \<Rightarrow> 'c list \<Rightarrow> bool
     \<Rightarrow> return_object list \<Rightarrow> error + (bool \<times> return_object list)" where
  "candidates_loop one [] bool_search_satisfied current_returns =
     Inr (bool_search_satisfied, current_returns)"
| "candidates_loop one (c # rest) bool_search_satisfied current_returns =
     (case one c of
        Inl e \<Rightarrow> Inl e
      | Inr (bool_one_search_satisfied, new_returns) \<Rightarrow>
          candidates_loop one rest (bool_one_search_satisfied \<or> bool_search_satisfied)
            (current_returns @ new_returns))"

definition method_candidate ::
  "analysis_utils \<Rightarrow> links \<Rightarrow> (string \<times> json) list \<Rightarrow> string
     \<Rightarrow> error + (bool \<times> return_object list)" where
  "method_candidate u l obj c =
     calls_to_method_loop u l obj [c] False []"

definition class_candidate ::
  "analysis_utils \<Rightarrow> links \<Rightarrow> (string \<times> json) list \<Rightarrow> string
     \<Rightarrow> error + (bool \<times> return_object list)" where
  "class_candidate u l obj c =
     calls_to_class_loop u l obj [c] False []"

section \<open>Template validation (template\_parser.py)\<close>

text \<open>
  The conditions of the \<open>if\<close> statements may raise. \<open>and\<close> and \<open>or\<close> evaluate
  their right operand only when the left one does not decide. \<open>raise_if\<close> is
  an \<open>if\<close> whose body raises a JandroidException, followed by the rest of the
  function. The exception is known by the last part of its \<open>type\<close> entry.
\<close>

definition py_and :: "error + bool \<Rightarrow> error + bool \<Rightarrow> error + bool" where
  "py_and a b = (case a of Inl e \<Rightarrow> Inl e | Inr x \<Rightarrow> if x then b else Inr False)"

definition py_or :: "error + bool \<Rightarrow> error + bool \<Rightarrow> error + bool" where
  "py_or a b = (case a of Inl e \<Rightarrow> Inl e | Inr x \<Rightarrow> if x then Inr True else b)"

definition py_not :: "error + bool \<Rightarrow> error + bool" where
  "py_not a = (case a of Inl e \<Rightarrow> Inl e | Inr x \<Rightarrow> Inr (\<not> x))"

definition raise_if :: "error + bool \<Rightarrow> string \<Rightarrow> error + 'a \<Rightarrow> error + 'a" where
  "raise_if condition exception_type rest =
     (case condition of
        Inl e \<Rightarrow> Inl e
      | Inr x \<Rightarrow> if x then Inl (JandroidException exception_type) else rest)"

text \<open>
  \<open>str(x)\<close>. A string is itself; a list or a dictionary is written with the
  \<open>repr\<close> of its parts. The \<open>repr\<close> of a string is quoted, with a double quote
  when the string holds single quotes only, and escapes the backslash, the
  quote and the characters that cannot be printed.
\<close>

definition digit_char :: "nat \<Rightarrow> char" where
  "digit_char n = ''0123456789abcdef'' ! n"

fun nat_str :: "nat \<Rightarrow> string" where
  "nat_str n = (if n < 10 then [digit_char n] else nat_str (n div 10) @ [digit_char (n mod 10)])"

definition int_str :: "int \<Rightarrow> string" where
  "int_str i = (if i < 0 then CHR ''-'' # nat_str (nat (- i)) else nat_str (nat i))"

definition repr_char :: "char \<Rightarrow> char \<Rightarrow> string" where
  "repr_char quote c =
     (let n = of_char c :: nat
      in if c = CHR 0x5C then [CHR 0x5C, CHR 0x5C]
         else if c = quote then [CHR 0x5C, quote]
         else if c = CHR 0x09 then [CHR 0x5C, CHR ''t'']
         else if c = CHR 0x0A then [CHR 0x5C, CHR ''n'']
         else if c = CHR 0x0D then [CHR 0x5C, CHR ''r'']
         else if n < 0x20 \<or> (0x7F \<le> n \<and> n \<le> 0xA0) \<or> n = 0xAD
         then [CHR 0x5C, CHR ''x'', digit_char (n div 16), digit_char (n mod 16)]
         else [c])"

definition repr_str :: "string \<Rightarrow> string" where
  "repr_str s =
     (let quote = (if CHR 0x27 \<in> set s \<and> CHR 0x22 \<notin> set s then CHR 0x22 else CHR 0x27)
      in quote # concat (map (repr_char quote) s) @ [quote])"

fun py_repr :: "json \<Rightarrow> string"
and repr_elements :: "json list \<Rightarrow> string list"
and repr_items :: "(string \<times> json) list \<Rightarrow> string list" where
  "py_repr (JStr s) = repr_str s"
| "py_repr (JInt i) = int_str i"
| "py_repr (JBool b) = (if b then ''True'' else ''False'')"
| "py_repr JNull = ''None''"
| "py_repr (JList xs) = ''['' @ py_join '', '' (repr_elements xs) @ '']''"
| "py_repr (JDict d) = ''{'' @ py_join '', '' (repr_items d) @ ''}''"
| "repr_elements [] = []"
| "repr_elements (x # xs) = py_repr x # repr_elements xs"
| "repr_items [] = []"
| "repr_items ((k, v) # d) = (repr_str k @ '': '' @ py_repr v) # repr_items d"

fun py_str :: "json \<Rightarrow> string" where
  "py_str (JStr s) = s"
| "py_str obj = py_repr obj"

text \<open>
  \<open>__fn_check_return\<close>, for the RETURN of a manifest rule. The same three tests
  are made on a string and on every element of a list.
\<close>

definition check_return_element :: "json \<Rightarrow> error + unit" where
  "check_return_element return_element =
     raise_if (py_not (str_in '' AS '' return_element)) ''MissingIdentifier''
       (case split_of return_element '' AS '' of
          Inl e \<Rightarrow> Inl e
        | Inr return_id \<Rightarrow>
            if length return_id \<noteq> 2 then Inl (JandroidException ''MissingIdentifier'')
            else if \<not> startswith (return_id ! 1) ''@''
            then Inl (JandroidException ''MissingIdentifier'')
            else Inr ())"

fun check_return_elements :: "json list \<Rightarrow> error + unit" where
  "check_return_elements [] = Inr ()"
| "check_return_elements (return_element # rest) =
     (case check_return_element return_element of
        Inl e \<Rightarrow> Inl e
      | Inr u \<Rightarrow> check_return_elements rest)"

definition fn_check_return :: "json \<Rightarrow> error + unit" where
  "fn_check_return return_object =
     (case return_object of
        JStr s \<Rightarrow> check_return_element return_object
      | JList return_elements \<Rightarrow> check_return_elements return_elements
      | _ \<Rightarrow> Inl (JandroidException ''BadElementType''))"

text \<open>
  \<open>__fn_check_lookfor\<close>. The values of the four options are strings or lists;
  the tests that follow the type test use them as strings.
\<close>

definition lookfor_options :: "string list" where
  "lookfor_options = [''TAGEXISTS'', ''TAGNOTEXISTS'', ''TAGVALUEMATCH'', ''TAGVALUENOMATCH'']"

fun lookfor_option_types :: "(string \<times> json) list \<Rightarrow> string list \<Rightarrow> bool \<Rightarrow> error + bool" where
  "lookfor_option_types lookfor_object [] lookfor_option_present = Inr lookfor_option_present"
| "lookfor_option_types lookfor_object (lookfor_option # rest) lookfor_option_present =
     (case map_of lookfor_object lookfor_option of
        None \<Rightarrow> lookfor_option_types lookfor_object rest lookfor_option_present
      | Some v \<Rightarrow>
          if type_of v \<noteq> Type_str \<and> type_of v \<noteq> Type_list
          then Inl (JandroidException ''BadElementType'')
          else lookfor_option_types lookfor_object rest True)"

definition exported_tag_check :: "(string \<times> json) list \<Rightarrow> string \<Rightarrow> error + unit \<Rightarrow> error + unit" where
  "exported_tag_check lookfor_object lookfor_option rest =
     (case map_of lookfor_object lookfor_option of
        None \<Rightarrow> rest
      | Some v \<Rightarrow>
          (case split_of v ''='' of
             Inl e \<Rightarrow> Inl e
           | Inr parts \<Rightarrow>
               (case py_index (py_split (py_strip (hd parts)) '':'') 1 of
                  Inl e \<Rightarrow> Inl e
                | Inr attribute \<Rightarrow>
                    if attribute = ''exported''
                    then raise_if (str_in '' OR '' v) ''BadTagSpecifier'' rest
                    else rest)))"

fun or_disallowed_check :: "(string \<times> json) list \<Rightarrow> string list \<Rightarrow> error + unit \<Rightarrow> error + unit" where
  "or_disallowed_check lookfor_object [] rest = rest"
| "or_disallowed_check lookfor_object (or_disallowed_lookfor_option # options) rest =
     (case map_of lookfor_object or_disallowed_lookfor_option of
        None \<Rightarrow> or_disallowed_check lookfor_object options rest
      | Some v \<Rightarrow>
          if py_in '' OR '' (py_str v) then Inl (JandroidException ''BadOperator'')
          else or_disallowed_check lookfor_object options rest)"

definition tagexists_check :: "(string \<times> json) list \<Rightarrow> error + unit \<Rightarrow> error + unit" where
  "tagexists_check lookfor_object rest =
     (case map_of lookfor_object ''TAGEXISTS'' of
        None \<Rightarrow> rest
      | Some v \<Rightarrow> raise_if (str_in '' '' v) ''BadTagSpecifier'' rest)"

definition fn_check_lookfor :: "json \<Rightarrow> error + unit" where
  "fn_check_lookfor lookfor_object =
     (case lookfor_object of
        JDict d \<Rightarrow>
          if \<not> list_all (\<lambda>lookfor_tag. lookfor_tag \<in> set lookfor_options) (map fst d)
          then Inl (JandroidException ''IncorrectKey'')
          else
            (case lookfor_option_types d lookfor_options False of
               Inl e \<Rightarrow> Inl e
             | Inr lookfor_option_present \<Rightarrow>
                 tagexists_check d
                   (exported_tag_check d ''TAGVALUEMATCH''
                     (exported_tag_check d ''TAGVALUENOMATCH''
                       (or_disallowed_check d [''TAGNOTEXISTS'', ''TAGVALUENOMATCH'']
                         (if \<not> lookfor_option_present
                          then Inl (JandroidException ''AbsentKey'')
                          else if ''RETURN'' \<in> set (map fst d)
                          then Inl (JandroidException ''IncorrectKey'')
                          else Inr ())))))
      | _ \<Rightarrow> Inl (JandroidException ''BadElementType''))"

text \<open>A value read with \<open>obj[key]\<close> is a part of the object.\<close>

lemma map_of_smaller:
  "map_of d k = Some v \<Longrightarrow> size v < Suc (size_list (size_prod (\<lambda>x. 0) size) d)"
  by (induction d) (auto split: if_splits)

lemma nth_smaller: "i < length xs \<Longrightarrow> size (xs ! i) < Suc (size_list size xs)"
  using size_list_estimation' [of "xs ! i" xs "size (xs ! i)" size] by simp

lemma py_getitem_smaller: "py_getitem obj k = Inr v \<Longrightarrow> size v < size obj"
proof (cases obj)
  case (JDict d)
  then show "py_getitem obj k = Inr v \<Longrightarrow> size v < size obj"
    by (cases k) (auto split: option.splits dest: map_of_smaller)
next
  case (JList xs)
  then show "py_getitem obj k = Inr v \<Longrightarrow> size v < size obj"
    by (cases k) (auto split: if_splits intro!: nth_smaller)
qed auto

text \<open>
  \<open>__fn_check_manifestparams\<close>. The inner function calls itself on every value
  that is a dictionary; the value it reads with \<open>json_object[element]\<close> is a
  part of the object, which bounds the recursion.
\<close>

function fn_recursive_manifest_checks :: "json \<Rightarrow> error + unit"
and manifest_elements_loop :: "json \<Rightarrow> json list \<Rightarrow> error + unit" where
  "fn_recursive_manifest_checks json_object =
     (case str_in ''LOOKFOR'' json_object of
        Inl e \<Rightarrow> Inl e
      | Inr has_lookfor \<Rightarrow>
          (case (if has_lookfor
                 then (case py_getitem json_object (JStr ''LOOKFOR'') of
                         Inl e \<Rightarrow> Inl e
                       | Inr lookfor_object \<Rightarrow> fn_check_lookfor lookfor_object)
                 else Inr ()) of
             Inl e \<Rightarrow> Inl e
           | Inr u \<Rightarrow>
               (case str_in ''RETURN'' json_object of
                  Inl e \<Rightarrow> Inl e
                | Inr has_return \<Rightarrow>
                    (case (if has_return
                           then (case py_getitem json_object (JStr ''RETURN'') of
                                   Inl e \<Rightarrow> Inl e
                                 | Inr return_object \<Rightarrow> fn_check_return return_object)
                           else Inr ()) of
                       Inl e \<Rightarrow> Inl e
                     | Inr u \<Rightarrow>
                         (case py_iter json_object of
                            Inl e \<Rightarrow> Inl e
                          | Inr elements \<Rightarrow> manifest_elements_loop json_object elements)))))"
| "manifest_elements_loop json_object [] = Inr ()"
| "manifest_elements_loop json_object (element # rest) =
     (if element = JStr ''LOOKFOR'' \<or> element = JStr ''RETURN''
      then manifest_elements_loop json_object rest
      else (case py_getitem json_object element of
              Inl e \<Rightarrow> Inl e
            | Inr v \<Rightarrow>
                if type_of v = Type_dict
                then (case fn_recursive_manifest_checks v of
                        Inl e \<Rightarrow> Inl e
                      | Inr u \<Rightarrow> manifest_elements_loop json_object rest)
                else manifest_elements_loop json_object rest))"
  by pat_completeness auto

termination
  apply (relation "inv_image (less_than <*lex*> less_than <*lex*> less_than)
           (\<lambda>x. case x of Inl obj \<Rightarrow> (size obj, 1::nat, 0::nat)
                  | Inr (obj, els) \<Rightarrow> (size obj, 0, length els))")
     apply (auto dest: py_getitem_smaller)
  done

definition fn_check_manifestparams :: "json \<Rightarrow> error + unit" where
  "fn_check_manifestparams manifest_json_object =
     (case str_in ''BASEPATH'' manifest_json_object of
        Inl e \<Rightarrow> Inl e
      | Inr has_basepath \<Rightarrow>
          (case (if has_basepath
                 then (case py_getitem manifest_json_object (JStr ''BASEPATH'') of
                         Inl e \<Rightarrow> Inl e
                       | Inr basepath \<Rightarrow>
                           if type_of basepath \<noteq> Type_str
                           then Inl (JandroidException ''BadElementType'')
                           else raise_if (str_in '' AND '' basepath) ''BadOperator'' (Inr ()))
                 else Inr ()) of
             Inl e \<Rightarrow> Inl e
           | Inr u \<Rightarrow>
               (case str_in ''SEARCHPATH'' manifest_json_object of
                  Inl e \<Rightarrow> Inl e
                | Inr has_searchpath \<Rightarrow>
                    (case (if has_searchpath
                           then (case py_getitem manifest_json_object (JStr ''SEARCHPATH'') of
                                   Inl e \<Rightarrow> Inl e
                                 | Inr searchpath \<Rightarrow>
                                     if type_of searchpath \<noteq> Type_dict
                                     then Inl (JandroidException ''BadElementType'')
                                     else raise_if (str_in '' AND '' searchpath) ''BadOperator''
                                            (Inr ()))
                           else Inr ()) of
                       Inl e \<Rightarrow> Inl e
                     | Inr u \<Rightarrow> fn_recursive_manifest_checks manifest_json_object))))"

text \<open>
  \<open>__fn_check_object_against_expected_structure\<close>. An expected structure lists
  keywords, each required or not, with the type of its value and, for some, the
  structure expected of the value. On a value of another type the function
  means to raise a JandroidException, but the message it builds adds the type
  object to a string, which raises TypeError.
\<close>

datatype expected = Expected bool py_type "(string \<times> expected) list option"

function fn_check_object_against_expected_structure ::
  "json \<Rightarrow> (string \<times> expected) list \<Rightarrow> error + bool" where
  "fn_check_object_against_expected_structure template_obj [] = Inr True"
| "fn_check_object_against_expected_structure template_obj
     ((expected_structure_keyword, Expected required expected_type subkeys) # rest) =
     (case str_in expected_structure_keyword template_obj of
        Inl e \<Rightarrow> Inl e
      | Inr present \<Rightarrow>
          if required \<and> \<not> present then Inl (JandroidException ''MissingKey'')
          else if \<not> present
          then fn_check_object_against_expected_structure template_obj rest
          else (case py_getitem template_obj (JStr expected_structure_keyword) of
                  Inl e \<Rightarrow> Inl e
                | Inr v \<Rightarrow>
                    if type_of v \<noteq> expected_type then Inl TypeError
                    else (case subkeys of
                            None \<Rightarrow> fn_check_object_against_expected_structure template_obj rest
                          | Some expected_subkeys \<Rightarrow>
                              (case fn_check_object_against_expected_structure v
                                      expected_subkeys of
                                 Inl e \<Rightarrow> Inl e
                               | Inr b \<Rightarrow>
                                   fn_check_object_against_expected_structure template_obj
                                     rest))))"
  by pat_completeness auto

termination
  by (relation "measure (\<lambda>(template_obj, expected_structure).
                  size_list (size_prod (\<lambda>k. 0) size) expected_structure)")
     auto

text \<open>\<open>__fn_check_code_search\<close>.\<close>

definition call_site_structure :: "string \<Rightarrow> expected" where
  "call_site_structure target =
     Expected False Type_dict
       (Some [(target, Expected True Type_str None),
              (''SEARCHLOCATION'', Expected False Type_str None),
              (''RETURN'', Expected False Type_str None)])"

definition search_keywords_expected_structure :: "(string \<times> expected) list" where
  "search_keywords_expected_structure =
     [(''SEARCHFORMETHOD'', Expected False Type_str None),
      (''SEARCHFORCALLTOMETHOD'', call_site_structure ''METHOD''),
      (''SEARCHFORCLASS'', Expected False Type_str None),
      (''SEARCHFORCALLTOCLASS'', call_site_structure ''CLASS''),
      (''SEARCHFORSTRING'', Expected False Type_str None),
      (''SEARCHFORCALLTOSTRING'', call_site_structure ''STRING'')]"

definition existence_search_types :: "string list" where
  "existence_search_types = [''SEARCHFORMETHOD'', ''SEARCHFORCLASS'', ''SEARCHFORSTRING'']"

definition check_search_location :: "string \<Rightarrow> json \<Rightarrow> error + unit" where
  "check_search_location primary_search_type individual_search_obj =
     (if primary_search_type \<in> set existence_search_types
      then Inl (JandroidException ''IncorrectKey'')
      else (case py_getitem individual_search_obj (JStr ''SEARCHLOCATION'') of
              Inl e \<Rightarrow> Inl e
            | Inr location \<Rightarrow>
                (case str_in '':'' location of
                   Inl e \<Rightarrow> Inl e
                 | Inr has_type \<Rightarrow>
                     if has_type
                     then (case split_of location '':'' of
                             Inl e \<Rightarrow> Inl e
                           | Inr location_split \<Rightarrow>
                               if hd location_split \<notin> set [''<class>'', ''<method>'']
                               then Inl (JandroidException ''IncorrectLocationType'')
                               else Inr ())
                     else Inr ())))"

fun check_search_returns :: "json list \<Rightarrow> error + unit" where
  "check_search_returns [] = Inr ()"
| "check_search_returns (return_element # rest) =
     (case split_of return_element '' AS '' of
        Inl e \<Rightarrow> Inl e
      | Inr split_return \<Rightarrow>
          if length split_return \<noteq> 2 then Inl (JandroidException ''IncorrectReturnType'')
          else if split_return ! 0 \<notin> set [''<class>'', ''<method>'']
          then Inl (JandroidException ''IncorrectReturnType'')
          else if \<not> startswith (split_return ! 1) ''@''
          then Inl (JandroidException ''IncorrectReturnType'')
          else check_search_returns rest)"

definition check_search_return :: "string \<Rightarrow> json \<Rightarrow> error + unit" where
  "check_search_return primary_search_type individual_search_obj =
     (if primary_search_type \<in> set existence_search_types
      then Inl (JandroidException ''IncorrectKey'')
      else (case py_getitem individual_search_obj (JStr ''RETURN'') of
              Inl e \<Rightarrow> Inl e
            | Inr returnables \<Rightarrow>
                (case (case returnables of
                         JList returnable_elements \<Rightarrow> Inr returnable_elements
                       | _ \<Rightarrow>
                           (case str_in '','' returnables of
                              Inl e \<Rightarrow> Inl e
                            | Inr has_comma \<Rightarrow>
                                if has_comma
                                then (case split_of returnables '','' of
                                        Inl e \<Rightarrow> Inl e
                                      | Inr parts \<Rightarrow> Inr (map JStr parts))
                                else Inr [returnables])) of
                   Inl e \<Rightarrow> Inl e
                 | Inr returnable_elements \<Rightarrow> check_search_returns returnable_elements)))"

fun primary_search_types_loop :: "(string \<times> json) list \<Rightarrow> string list \<Rightarrow> error + unit" where
  "primary_search_types_loop individual_code_search_obj [] = Inr ()"
| "primary_search_types_loop individual_code_search_obj (primary_search_type # rest) =
     (case map_of individual_code_search_obj primary_search_type of
        None \<Rightarrow> Inl KeyError
      | Some individual_search_obj \<Rightarrow>
          (case str_in ''SEARCHLOCATION'' individual_search_obj of
             Inl e \<Rightarrow> Inl e
           | Inr has_location \<Rightarrow>
               (case (if has_location
                      then check_search_location primary_search_type individual_search_obj
                      else Inr ()) of
                  Inl e \<Rightarrow> Inl e
                | Inr u \<Rightarrow>
                    (case str_in ''RETURN'' individual_search_obj of
                       Inl e \<Rightarrow> Inl e
                     | Inr has_return \<Rightarrow>
                         (case (if has_return
                                then check_search_return primary_search_type
                                       individual_search_obj
                                else Inr ()) of
                            Inl e \<Rightarrow> Inl e
                          | Inr u \<Rightarrow>
                              primary_search_types_loop individual_code_search_obj rest)))))"

fun code_search_objects_loop :: "json list \<Rightarrow> bool \<Rightarrow> error + bool" where
  "code_search_objects_loop [] bool_search_structure_satisfied =
     Inr bool_search_structure_satisfied"
| "code_search_objects_loop (JDict individual_code_search_obj # rest)
     bool_search_structure_satisfied =
     (case primary_search_types_loop individual_code_search_obj
             (map fst individual_code_search_obj) of
        Inl e \<Rightarrow> Inl e
      | Inr u \<Rightarrow>
          (case fn_check_object_against_expected_structure
                  (JDict individual_code_search_obj) search_keywords_expected_structure of
             Inl e \<Rightarrow> Inl e
           | Inr b \<Rightarrow> code_search_objects_loop rest b))"
| "code_search_objects_loop (individual_code_search_obj # rest)
     bool_search_structure_satisfied = Inl (JandroidException ''BadElementType'')"

definition fn_check_code_search :: "json \<Rightarrow> error + unit" where
  "fn_check_code_search code_search_obj =
     (case (case code_search_obj of
              JList objs \<Rightarrow> Inr objs
            | JDict d \<Rightarrow> Inr [code_search_obj]
            | _ \<Rightarrow> Inl (JandroidException ''BadElementType'')) of
        Inl e \<Rightarrow> Inl e
      | Inr objs \<Rightarrow>
          (case code_search_objects_loop objs False of
             Inl e \<Rightarrow> Inl e
           | Inr bool_search_structure_satisfied \<Rightarrow>
               if \<not> bool_search_structure_satisfied
               then Inl (JandroidException ''InvalidStructure'')
               else Inr ()))"

text \<open>\<open>__fn_check_code_trace\<close>.\<close>

definition trace_keywords_expected_structure :: "(string \<times> expected) list" where
  "trace_keywords_expected_structure =
     [(''TRACEFROM'', Expected True Type_str None),
      (''TRACETO'', Expected True Type_str None),
      (''TRACEDIRECTION'', Expected False Type_str None),
      (''TRACELENGTHMAX'', Expected False Type_int None),
      (''RETURN'', Expected False Type_str None)]"

definition check_trace_return :: "(string \<times> json) list \<Rightarrow> error + unit" where
  "check_trace_return individual_code_trace_obj =
     (case map_of individual_code_trace_obj ''RETURN'' of
        None \<Rightarrow> Inr ()
      | Some returnables \<Rightarrow>
          (case split_of returnables '' AS '' of
             Inl e \<Rightarrow> Inl e
           | Inr parts \<Rightarrow>
               if hd parts \<notin> set [''<tracepath>''] then Inl (JandroidException ''BadReturnType'')
               else (case py_index parts 1 of
                       Inl e \<Rightarrow> Inl e
                     | Inr return_id \<Rightarrow>
                         if \<not> startswith return_id ''@tracepath_''
                         then Inl (JandroidException ''BadReturnType'')
                         else Inr ())))"

definition check_trace_direction :: "(string \<times> json) list \<Rightarrow> error + json" where
  "check_trace_direction individual_code_trace_obj =
     (case map_of individual_code_trace_obj ''TRACEDIRECTION'' of
        None \<Rightarrow> Inr (JStr ''REVERSE'')
      | Some direction \<Rightarrow>
          if direction \<notin> set [JStr ''FORWARD'', JStr ''REVERSE'']
          then Inl (JandroidException ''BadTraceDirection'')
          else Inr direction)"

definition check_basic_trace :: "json \<Rightarrow> json \<Rightarrow> error + unit" where
  "check_basic_trace trace_from_string trace_to_string =
     raise_if (py_or (str_in ''RESULTOF'' trace_from_string)
                 (str_in ''RESULTOF'' trace_to_string)) ''BadTraceParams''
       (raise_if (py_or (str_in ''ARGTO'' trace_from_string)
                    (str_in ''ARGTO'' trace_to_string)) ''BadTraceParams''
          (raise_if (py_or (str_in ''ARGINDEX'' trace_from_string)
                       (str_in ''ARGINDEX'' trace_to_string)) ''BadTraceParams''
             (Inr ())))"

definition check_advanced_trace :: "json \<Rightarrow> json \<Rightarrow> json \<Rightarrow> error + unit" where
  "check_advanced_trace trace_from_string trace_to_string direction =
     raise_if (py_and (str_in ''ARGINDEX'' trace_from_string)
                 (py_not (str_in ''ARGTO'' trace_from_string))) ''BadTraceParams''
       (raise_if (py_and (str_in ''ARGINDEX'' trace_to_string)
                    (py_not (str_in ''ARGTO'' trace_to_string))) ''BadTraceParams''
          (raise_if (py_and (str_in ''RESULTOF'' trace_from_string)
                       (Inr (direction = JStr ''REVERSE''))) ''BadTraceParams''
             (raise_if (py_and (str_in ''ARGTO'' trace_from_string)
                          (Inr (direction = JStr ''FORWARD''))) ''BadTraceParams''
                (raise_if (py_and (py_not (str_in ''RESULTOF'' trace_from_string))
                             (Inr (direction = JStr ''FORWARD''))) ''BadTraceParams''
                   (raise_if (py_and (str_in ''RESULTOF'' trace_to_string)
                                (Inr (direction = JStr ''FORWARD''))) ''BadTraceParams''
                      (raise_if (py_and (str_in ''ARGTO'' trace_to_string)
                                   (Inr (direction = JStr ''REVERSE'')))
                         ''BadTraceParams'' (Inr ())))))))"

definition check_trace_type :: "(string \<times> json) list \<Rightarrow> json \<Rightarrow> error + unit" where
  "check_trace_type individual_code_trace_obj direction =
     (case map_of individual_code_trace_obj ''TRACETYPE'' of
        None \<Rightarrow> Inr ()
      | Some trace_type \<Rightarrow>
          if trace_type \<notin> set [JStr ''BASIC'', JStr ''ADVANCED'']
          then Inl (JandroidException ''BadTraceType'')
          else (case (map_of individual_code_trace_obj ''TRACEFROM'',
                      map_of individual_code_trace_obj ''TRACETO'') of
                  (Some trace_from_string, Some trace_to_string) \<Rightarrow>
                    if trace_type = JStr ''BASIC''
                    then check_basic_trace trace_from_string trace_to_string
                    else check_advanced_trace trace_from_string trace_to_string
                           direction
                | _ \<Rightarrow> Inl KeyError))"

fun code_trace_objects_loop :: "json list \<Rightarrow> bool \<Rightarrow> error + bool" where
  "code_trace_objects_loop [] bool_trace_structure_satisfied =
     Inr bool_trace_structure_satisfied"
| "code_trace_objects_loop (JDict individual_code_trace_obj # rest)
     bool_trace_structure_satisfied =
     (if ''TRACEFROM'' \<notin> set (map fst individual_code_trace_obj)
      then Inl (JandroidException ''BadElementType'')
      else if ''TRACETO'' \<notin> set (map fst individual_code_trace_obj)
      then Inl (JandroidException ''BadElementType'')
      else (case check_trace_return individual_code_trace_obj of
              Inl e \<Rightarrow> Inl e
            | Inr u \<Rightarrow>
                (case check_trace_direction individual_code_trace_obj of
                   Inl e \<Rightarrow> Inl e
                 | Inr direction \<Rightarrow>
                     (case check_trace_type individual_code_trace_obj direction of
                        Inl e \<Rightarrow> Inl e
                      | Inr u \<Rightarrow>
                          (case fn_check_object_against_expected_structure
                                  (JDict individual_code_trace_obj)
                                  trace_keywords_expected_structure of
                             Inl e \<Rightarrow> Inl e
                           | Inr b \<Rightarrow> code_trace_objects_loop rest b)))))"
| "code_trace_objects_loop (individual_code_trace_obj # rest) bool_trace_structure_satisfied =
     Inl (JandroidException ''BadElementType'')"

definition fn_check_code_trace :: "json \<Rightarrow> error + unit" where
  "fn_check_code_trace code_trace_obj =
     (case (case code_trace_obj of
              JList objs \<Rightarrow> Inr objs
            | JDict d \<Rightarrow> Inr [code_trace_obj]
            | _ \<Rightarrow> Inl (JandroidException ''BadElementType'')) of
        Inl e \<Rightarrow> Inl e
      | Inr objs \<Rightarrow>
          (case code_trace_objects_loop objs False of
             Inl e \<Rightarrow> Inl e
           | Inr bool_trace_structure_satisfied \<Rightarrow>
               if \<not> bool_trace_structure_satisfied
               then Inl (JandroidException ''InvalidStructure'')
               else Inr ()))"

definition fn_check_codeparams :: "json \<Rightarrow> error + unit" where
  "fn_check_codeparams code_json_object =
     (case str_in ''SEARCH'' code_json_object of
        Inl e \<Rightarrow> Inl e
      | Inr has_search \<Rightarrow>
          (case (if has_search
                 then (case py_getitem code_json_object (JStr ''SEARCH'') of
                         Inl e \<Rightarrow> Inl e
                       | Inr code_search_obj \<Rightarrow> fn_check_code_search code_search_obj)
                 else Inr ()) of
             Inl e \<Rightarrow> Inl e
           | Inr u \<Rightarrow>
               (case str_in ''TRACE'' code_json_object of
                  Inl e \<Rightarrow> Inl e
                | Inr has_trace \<Rightarrow>
                    if has_trace
                    then (case py_getitem code_json_object (JStr ''TRACE'') of
                            Inl e \<Rightarrow> Inl e
                          | Inr code_trace_obj \<Rightarrow> fn_check_code_trace code_trace_obj)
                    else Inr ())))"

text \<open>\<open>__fn_check_graph\<close>.\<close>

fun attribute_labels_loop :: "string list \<Rightarrow> error + unit" where
  "attribute_labels_loop [] = Inr ()"
| "attribute_labels_loop (attribute_label # rest) =
     (if \<not> py_in '' AS '' attribute_label then Inl (JandroidException ''BadElementType'')
      else if \<not> py_in ''attribute'' attribute_label \<and> \<not> py_in ''label'' attribute_label
      then Inl (JandroidException ''BadElementType'')
      else attribute_labels_loop rest)"

definition fn_check_graph :: "json \<Rightarrow> error + unit" where
  "fn_check_graph graphable_element =
     (case graphable_element of
        JStr s \<Rightarrow>
          if \<not> startswith s ''@'' then Inl (JandroidException ''BadElementType'')
          else if \<not> py_in '' WITH '' s then Inl (JandroidException ''BadElementType'')
          else attribute_labels_loop (py_split (py_split s '' WITH '' ! 1) '','')
      | _ \<Rightarrow> Inl (JandroidException ''BadElementType''))"

text \<open>
  \<open>__fn_check_metadata_section\<close> and \<open>__fn_parse_template_file\<close>. A template
  file is given by the value \<open>json.load\<close> returns, or None when the file cannot
  be read as JSON. The master template object is followed through its keys,
  the names of the templates admitted, in the order of their admission; a
  template is admitted when all the checks have passed. (The object stored is
  then edited in place: the name is removed from its METADATA and counters are
  added beside every LOOKFOR.)
\<close>

definition fn_check_metadata_section :: "string list \<Rightarrow> json \<Rightarrow> error + unit" where
  "fn_check_metadata_section output_template_object metadata_object =
     (case metadata_object of
        JDict d \<Rightarrow>
          (case map_of d ''NAME'' of
             None \<Rightarrow> Inl (JandroidException ''MissingRequiredKeys'')
           | Some (JStr template_name) \<Rightarrow>
               if template_name \<in> set output_template_object
               then Inl (JandroidException ''DuplicateTemplate'')
               else Inr ()
           | Some _ \<Rightarrow> Inl (JandroidException ''BadElementType''))
      | _ \<Rightarrow> Inl AttributeError)"

definition section_check ::
  "(string \<times> json) list \<Rightarrow> string \<Rightarrow> (json \<Rightarrow> error + unit) \<Rightarrow> error + 'a \<Rightarrow> error + 'a" where
  "section_check template_file_object section_name check rest =
     (case map_of template_file_object section_name of
        None \<Rightarrow> rest
      | Some section_object \<Rightarrow>
          (case check section_object of Inl e \<Rightarrow> Inl e | Inr u \<Rightarrow> rest))"

definition section_present :: "(string \<times> json) list \<Rightarrow> string \<Rightarrow> bool" where
  "section_present template_file_object section_name =
     (case map_of template_file_object section_name of
        None \<Rightarrow> False
      | Some section_object \<Rightarrow> section_object \<noteq> JDict [])"

definition fn_parse_template_file :: "string list \<Rightarrow> json option \<Rightarrow> error + string list" where
  "fn_parse_template_file output_template_object template_file =
     (case template_file of
        None \<Rightarrow> Inl (JandroidException ''JSONError'')
      | Some (JDict template_file_object) \<Rightarrow>
          if template_file_object = [] then Inl (JandroidException ''EmptyTemplate'')
          else (case map_of template_file_object ''METADATA'' of
                  None \<Rightarrow> Inl (JandroidException ''MissingRequiredSection'')
                | Some metadata_object \<Rightarrow>
                    (case fn_check_metadata_section output_template_object metadata_object of
                       Inl e \<Rightarrow> Inl e
                     | Inr u \<Rightarrow>
                         if \<not> section_present template_file_object ''MANIFESTPARAMS''
                            \<and> \<not> section_present template_file_object ''CODEPARAMS''
                         then Inl (JandroidException ''MissingRequiredSection'')
                         else
                           section_check template_file_object ''MANIFESTPARAMS''
                             fn_check_manifestparams
                             (section_check template_file_object ''CODEPARAMS''
                                fn_check_codeparams
                                (section_check template_file_object ''GRAPH'' fn_check_graph
                                   (case py_getitem metadata_object (JStr ''NAME'') of
                                      Inl e \<Rightarrow> Inl e
                                    | Inr (JStr template_name) \<Rightarrow>
                                        Inr (output_template_object @ [template_name])
                                    | Inr v \<Rightarrow> Inl TypeError)))))
      | Some template_file_object \<Rightarrow> Inl AttributeError)"

text \<open>
  \<open>fn_parse_templates\<close>: a template that raises is logged and skipped, and the
  next one is parsed.
\<close>

fun fn_parse_templates :: "json option list \<Rightarrow> string list \<Rightarrow> string list" where
  "fn_parse_templates [] output_template_object = output_template_object"
| "fn_parse_templates (template_file # rest) output_template_object =
     (case fn_parse_template_file output_template_object template_file of
        Inl e \<Rightarrow> fn_parse_templates rest output_template_object
      | Inr admitted \<Rightarrow> fn_parse_templates rest admitted)"

section \<open>Template editor (gui/jandroid\_gui.py)\<close>

text \<open>
  The tests the editor makes on the identifier typed for a RETURN, before the
  rule is added to the template under construction. \<open>current_returns\<close> holds
  the identifiers the template already has. The result is True or an entry of
  \<open>INVALID_INPUT\<close>, given by its key. \<open>re.match\<close> with the pattern
  \<open>^[A-Za-z0-9_]*$\<close> accepts the words made of these characters, with or
  without a final newline.
\<close>

datatype validity = Valid | Invalid string

definition MAX_FIELD_LIMIT :: nat where "MAX_FIELD_LIMIT = 100"

definition KEYWORDS :: "string list" where "KEYWORDS = [''@app'', ''@tracepath'']"

definition word_char :: "char \<Rightarrow> bool" where
  "word_char c \<longleftrightarrow>
     (let n = of_char c :: nat
      in (0x41 \<le> n \<and> n \<le> 0x5A) \<or> (0x61 \<le> n \<and> n \<le> 0x7A) \<or> (0x30 \<le> n \<and> n \<le> 0x39)
         \<or> c = CHR ''_'')"

definition match_identifier :: "string \<Rightarrow> bool" where
  "match_identifier s \<longleftrightarrow>
     list_all word_char s
     \<or> (s \<noteq> [] \<and> last s = CHR 0x0A \<and> list_all word_char (butlast s))"

definition fn_check_entry_validity :: "string option \<Rightarrow> validity" where
  "fn_check_entry_validity entry =
     (case entry of
        None \<Rightarrow> Invalid ''len_blank''
      | Some entry_text \<Rightarrow>
          if py_replace (py_replace entry_text [CHR 0x0A] []) '' '' [] = []
          then Invalid ''len_blank''
          else if \<not> length entry_text \<le> MAX_FIELD_LIMIT then Invalid ''len_long''
          else if \<not> match_identifier entry_text then Invalid ''invalid_chars''
          else Valid)"

definition fn_check_return_validity :: "string list \<Rightarrow> string option \<Rightarrow> validity" where
  "fn_check_return_validity current_returns entry =
     (case fn_check_entry_validity entry of
        Invalid reason \<Rightarrow> Invalid reason
      | Valid \<Rightarrow>
          (case entry of
             None \<Rightarrow> Invalid ''len_blank''
           | Some entry_text \<Rightarrow>
               if (''@'' @ entry_text) \<in> set current_returns then Invalid ''return_exists''
               else if (''@'' @ entry_text) \<in> set KEYWORDS then Invalid ''reserved''
               else Valid))"

section \<open>A regular-expression instance for the examples\<close>

text \<open>
  The examples run the engine on small indexes. Their queries are built from
  escaped method and class names and the pattern \<open>.\<close>, so a matcher for this
  fragment of Python's regular expressions is enough: \<open>re.match\<close> matches at the
  start of the subject, a backslash makes the next character literal, and a dot
  matches any character but a newline. \<open>re.escape\<close> puts a backslash before
  every special character.
\<close>

fun literal_match :: "string \<Rightarrow> string \<Rightarrow> bool" where
  "literal_match [] s = True"
| "literal_match (c # p) [] = False"
| "literal_match [c] (x # s) =
     (if c = CHR 0x5C then False else if c = CHR ''.'' then x \<noteq> CHR 0x0A else c = x)"
| "literal_match (c # e # p) (x # s) =
     (if c = CHR 0x5C then e = x \<and> literal_match p s
      else if c = CHR ''.'' then x \<noteq> CHR 0x0A \<and> literal_match (e # p) s
      else c = x \<and> literal_match (e # p) s)"

definition special_chars :: "char list" where
  "special_chars = ''()[]{}?*+-|^$.&~# '' @ [CHR 0x5C, CHR 0x09, CHR 0x0A, CHR 0x0D, CHR 0x0B, CHR 0x0C]"

definition escape_special :: "string \<Rightarrow> string" where
  "escape_special s = concat (map (\<lambda>c. if c \<in> set special_chars then [CHR 0x5C, c] else [c]) s)"

text \<open>
  An index made of call edges only (caller, callee): its methods are those on
  the edges, and its classes, all internal, are given with their superclass.
\<close>

definition call_graph_index :: "(string \<times> string) list \<Rightarrow> (encoded_method \<times> encoded_method) list \<Rightarrow> bytecode_index" where
  "call_graph_index class_table edges =
     \<lparr>re_match = literal_match, re_escape = escape_special,
      classes = map (\<lambda>(c, s). (c, Some s)) class_table,
      methods = remdups (map fst edges @ map snd edges),
      method_xrefs = edges, class_xrefs = [], string_xrefs = []\<rparr>"

definition mk_method :: "string \<Rightarrow> string \<Rightarrow> string \<Rightarrow> encoded_method" where
  "mk_method c n d = \<lparr>get_class_name = c, get_name = n, get_descriptor = d\<rparr>"

section \<open>Example applications and templates\<close>

text \<open>
  What is observed of an evaluation: the error raised, or the verdict and the
  values bound under the identifiers asked for.
\<close>

definition outcome ::
  "string list \<Rightarrow> error + (bool \<times> links) \<Rightarrow> error + (bool \<times> string list list)" where
  "outcome ids r =
     (case r of
        Inl e \<Rightarrow> Inl e
      | Inr (b, l) \<Rightarrow> Inr (b, map (fn_get_linked_items l) ids))"

text \<open>
  An application in which \<open>Lt;->m()V\<close> is called from a click handler and from
  \<open>Ly;->run()V\<close>, analysed with KEEP\_INTERACTIVE\_ELEMENTS set to True in the
  configuration file.
\<close>

definition click_app :: bytecode_index where
  "click_app = call_graph_index []
     [(mk_method ''Lx;'' ''onClick'' ''(Landroid/view/View;)V'', mk_method ''Lt;'' ''m'' ''()V''),
      (mk_method ''Ly;'' ''run'' ''()V'', mk_method ''Lt;'' ''m'' ''()V'')]"

definition keep_interactive_conf :: config where
  "keep_interactive_conf = [(''SEARCHPARAMS'', ''KEEP_INTERACTIVE_ELEMENTS'') \<mapsto> ''True'']"

definition click_utils :: analysis_utils where
  "click_utils = AnalysisUtils keep_interactive_conf click_app remdups remdups"

text \<open>Two rule objects, each satisfied by this application when it is the whole SEARCH.\<close>

definition rule_calls_m :: json where
  "rule_calls_m = JDict [(''SEARCHFORCALLTOMETHOD'', JDict [(''METHOD'', JStr ''Lt;->m()V'')])]"

definition rule_calls_m_from_y :: json where
  "rule_calls_m_from_y =
     JDict [(''SEARCHFORCALLTOMETHOD'',
             JDict [(''METHOD'', JStr ''Lt;->m()V''),
                    (''SEARCHLOCATION'', JStr ''<class>:Ly;'')])]"

text \<open>
  An existence search for a method that the application defines. The template
  validation expects the target of an existence search as a string; the search
  engine reads it under the key METHOD of an object.
\<close>

definition rule_method_exists :: json where
  "rule_method_exists = JDict [(''SEARCHFORMETHOD'', JStr ''Lt;->m()V'')]"

definition rule_method_exists_object :: json where
  "rule_method_exists_object =
     JDict [(''SEARCHFORMETHOD'', JDict [(''METHOD'', JStr ''Lt;->m()V'')])]"

text \<open>The template file of a bug that has a name and a SEARCH.\<close>

definition search_template :: "string \<Rightarrow> json \<Rightarrow> json" where
  "search_template template_name rule =
     JDict [(''METADATA'', JDict [(''NAME'', JStr template_name)]),
            (''CODEPARAMS'', JDict [(''SEARCH'', rule)])]"

text \<open>
  An application with two call sites: \<open>Lbad;->f()V\<close> calls \<open>La;->m()V\<close> and
  \<open>Lgood;->g()V\<close> calls \<open>Lb;->n()V\<close>. The rule searches for calls to either
  method from the class \<open>Lgood;\<close> and binds the calling class.
\<close>

definition filter_app :: bytecode_index where
  "filter_app = call_graph_index []
     [(mk_method ''Lbad;'' ''f'' ''()V'', mk_method ''La;'' ''m'' ''()V''),
      (mk_method ''Lgood;'' ''g'' ''()V'', mk_method ''Lb;'' ''n'' ''()V'')]"

definition filter_utils :: analysis_utils where
  "filter_utils = AnalysisUtils Map.empty filter_app remdups remdups"

definition rule_filtered_calls :: json where
  "rule_filtered_calls =
     JDict [(''SEARCHFORCALLTOMETHOD'',
             JDict [(''METHOD'', JStr ''La;->m()V OR Lb;->n()V''),
                    (''SEARCHLOCATION'', JStr ''<class>:Lgood;''),
                    (''RETURN'', JStr ''<class> AS @x'')])]"

text \<open>
  The Basic examples never reach the Advanced engine; this stands for it. They
  are run with Python's default recursion limit.
\<close>

definition no_adv_trace :: "(string \<times> json) list \<Rightarrow> error + bool" where
  "no_adv_trace trace_dictionary = Inr False"

definition recursion_limit :: nat where
  "recursion_limit = 1000"

text \<open>
  The call graph \<open>C calls B\<close>, \<open>B calls A\<close>, and a Reverse trace from \<open>A\<close> to \<open>C\<close>
  that binds the path found.
\<close>

definition chain_app :: bytecode_index where
  "chain_app = call_graph_index []
     [(mk_method ''Lc;'' ''c'' ''()V'', mk_method ''Lb;'' ''b'' ''()V''),
      (mk_method ''Lb;'' ''b'' ''()V'', mk_method ''La;'' ''a'' ''()V'')]"

definition chain_utils :: analysis_utils where
  "chain_utils = AnalysisUtils Map.empty chain_app remdups remdups"

definition trace_a_to_c :: json where
  "trace_a_to_c =
     JDict [(''TRACEFROM'', JStr ''La;->a()V''), (''TRACETO'', JStr ''Lc;->c()V''),
            (''TRACEDIRECTION'', JStr ''REVERSE''),
            (''RETURN'', JStr ''<tracepath> AS @tracepath_x'')]"



definition trace_f_to_t :: json where
  "trace_f_to_t =
     JDict [(''TRACEFROM'', JStr ''Lf;->f()V''), (''TRACETO'', JStr ''Lt;->m()V''),
            (''TRACELENGTHMAX'', JInt 5),
            (''RETURN'', JStr ''<tracepath> AS @tracepath_x'')]"

text \<open>The cycle \<open>C calls B\<close>, \<open>B calls A\<close>, \<open>A calls C\<close>.\<close>

definition cycle_app :: bytecode_index where
  "cycle_app = call_graph_index []
     [(mk_method ''Lc;'' ''c'' ''()V'', mk_method ''Lb;'' ''b'' ''()V''),
      (mk_method ''Lb;'' ''b'' ''()V'', mk_method ''La;'' ''a'' ''()V''),
      (mk_method ''La;'' ''a'' ''()V'', mk_method ''Lc;'' ''c'' ''()V'')]"

definition cycle_utils :: analysis_utils where
  "cycle_utils = AnalysisUtils Map.empty cycle_app remdups remdups"


definition cycle_params :: trace_params where
  "cycle_params =
     \<lparr>trace_direction = TRACE_REVERSE, trace_length_max = 5, to_class_method = ''<method>'',
      trace_to_list = [''Lz;->z()V''], hardcoded_traceto = True\<rparr>"

text \<open>
  A class \<open>La;\<close> with the subclasses \<open>Lb1;\<close> and \<open>Lb2;\<close>, whose method \<open>m()V\<close> is
  called from \<open>Lp;\<close> and from \<open>Lq;\<close>. The same application is analysed twice,
  by runs of Python that list a set of strings in opposite orders.
\<close>

definition subclass_app :: bytecode_index where
  "subclass_app = call_graph_index [(''Lb1;'', ''La;''), (''Lb2;'', ''La;'')]
     [(mk_method ''Lp;'' ''f'' ''()V'', mk_method ''Lb1;'' ''m'' ''()V''),
      (mk_method ''Lq;'' ''g'' ''()V'', mk_method ''Lb2;'' ''m'' ''()V'')]"

definition first_run :: analysis_utils where
  "first_run = AnalysisUtils Map.empty subclass_app remdups remdups"

definition second_run :: analysis_utils where
  "second_run = AnalysisUtils Map.empty subclass_app (\<lambda>xs. rev (remdups xs)) remdups"

definition rule_calls_a_m :: json where
  "rule_calls_a_m =
     JDict [(''SEARCHFORCALLTOMETHOD'',
             JDict [(''METHOD'', JStr ''La;->m()V''), (''RETURN'', JStr ''<class> AS @x'')])]"

text \<open>
  Two applications for traces to \<open>Lt;->m()V\<close>, in which \<open>Lt;->m()V\<close> also calls
  \<open>Lx;->m()V\<close>. In the first, \<open>Lx;->m()V\<close> and \<open>Lt;->m()V\<close> call the method
  \<open>a()V\<close> of \<open>La;\<close> through its overrides in the subclasses \<open>Lb1;\<close> and \<open>Lb2;\<close>;
  the Reverse trace from \<open>La;->a()V\<close> is run with the subclasses listed in
  either order. In the second, \<open>Lf;->f()V\<close> calls both \<open>Lx;->m()V\<close> and
  \<open>Lt;->m()V\<close>; the Forward trace from \<open>Lf;->f()V\<close> is run with the set of the
  methods called listed in either order.
\<close>

definition override_app :: bytecode_index where
  "override_app = call_graph_index [(''Lb1;'', ''La;''), (''Lb2;'', ''La;'')]
     [(mk_method ''Lx;'' ''m'' ''()V'', mk_method ''Lb1;'' ''a'' ''()V''),
      (mk_method ''Lt;'' ''m'' ''()V'', mk_method ''Lb2;'' ''a'' ''()V''),
      (mk_method ''Lt;'' ''m'' ''()V'', mk_method ''Lx;'' ''m'' ''()V'')]"

definition override_first_run :: analysis_utils where
  "override_first_run = AnalysisUtils Map.empty override_app remdups remdups"

definition override_second_run :: analysis_utils where
  "override_second_run =
     AnalysisUtils Map.empty override_app (\<lambda>xs. rev (remdups xs)) remdups"

definition trace_a_to_t :: json where
  "trace_a_to_t =
     JDict [(''TRACEFROM'', JStr ''La;->a()V''), (''TRACETO'', JStr ''Lt;->m()V''),
            (''RETURN'', JStr ''<tracepath> AS @tracepath_x'')]"

definition fork_app :: bytecode_index where
  "fork_app = call_graph_index []
     [(mk_method ''Lf;'' ''f'' ''()V'', mk_method ''Lx;'' ''m'' ''()V''),
      (mk_method ''Lf;'' ''f'' ''()V'', mk_method ''Lt;'' ''m'' ''()V''),
      (mk_method ''Lx;'' ''m'' ''()V'', mk_method ''Lt;'' ''m'' ''()V'')]"

definition fork_first_run :: analysis_utils where
  "fork_first_run = AnalysisUtils Map.empty fork_app remdups remdups"

definition fork_second_run :: analysis_utils where
  "fork_second_run = AnalysisUtils Map.empty fork_app remdups (\<lambda>ms. rev (remdups ms))"

definition trace_f_to_t_forward :: json where
  "trace_f_to_t_forward =
     JDict [(''TRACEFROM'', JStr ''Lf;->f()V''), (''TRACETO'', JStr ''Lt;->m()V''),
            (''TRACEDIRECTION'', JStr ''FORWARD''),
            (''RETURN'', JStr ''<tracepath> AS @tracepath_x'')]"

text \<open>
  The index of an application with its tables listed the other way round, and
  a third run on the application of the subclasses, with this index and with
  its sets listed the other way round.
\<close>

definition reversed_index :: "bytecode_index \<Rightarrow> bytecode_index" where
  "reversed_index dx =
     dx\<lparr>classes := rev (classes dx), methods := rev (methods dx),
        method_xrefs := rev (method_xrefs dx), class_xrefs := rev (class_xrefs dx),
        string_xrefs := rev (string_xrefs dx)\<rparr>"

definition third_run :: analysis_utils where
  "third_run =
     AnalysisUtils Map.empty (reversed_index subclass_app) (\<lambda>xs. rev (remdups xs))
       (\<lambda>ms. rev (remdups ms))"

text \<open>
  Templates that use an identifier twice, in one RETURN of a search and in the
  RETURN list of a manifest rule, and a template whose identifier is \<open>@app\<close>,
  which the graph export reads as the application itself.
\<close>

definition duplicate_returns_rule :: json where
  "duplicate_returns_rule =
     JDict [(''SEARCHFORCALLTOMETHOD'',
             JDict [(''METHOD'', JStr ''Lt;->m()V''),
                    (''RETURN'', JStr ''<class> AS @x,<method> AS @x'')])]"

definition reserved_return_rule :: json where
  "reserved_return_rule =
     JDict [(''SEARCHFORCALLTOMETHOD'',
             JDict [(''METHOD'', JStr ''Lt;->m()V''), (''RETURN'', JStr ''<class> AS @app'')])]"

definition duplicate_manifest_returns_template :: json where
  "duplicate_manifest_returns_template =
     JDict [(''METADATA'', JDict [(''NAME'', JStr ''DuplicateManifestReturns'')]),
            (''MANIFESTPARAMS'',
             JDict [(''BASEPATH'', JStr ''manifest->application->activity''),
                    (''SEARCHPATH'',
                     JDict [(''intent-filter'',
                             JDict [(''data'',
                                     JDict [(''RETURN'',
                                             JList [JStr ''<NAMESPACE>:host AS @y'',
                                                    JStr ''<NAMESPACE>:scheme AS @y''])])])])])]"

section \<open>Bug evaluator (app\_analyser.py)\<close>

text \<open>
  The counters and the link table that \<open>fn_per_bug_analysis\<close> resets for
  every bug.
\<close>

record bug_state =
  current_bug_search_types :: nat
  current_bug_search_outcomes :: nat
  current_links :: links

text \<open>
  The manifest matcher and the code analyser are called through their
  contracts: the matcher returns a verdict and the updated links, the code
  analyser may also raise. \<open>androguard_apk_obj\<close> is \<open>None\<close> when a .dex file is
  analysed (\<open>AnalyzeDex\<close> yields no APK object).
\<close>

type_synonym 'apk manifest_analysis = "'apk \<Rightarrow> links \<Rightarrow> bool \<times> links"
type_synonym code_analysis = "links \<Rightarrow> error + (bool \<times> links)"

definition fn_handle_manifest_analysis ::
  "'apk manifest_analysis \<Rightarrow> 'apk option \<Rightarrow> (string \<times> json) list \<Rightarrow> bug_state
     \<Rightarrow> error + bug_state" where
  "fn_handle_manifest_analysis fn_perform_manifest_analysis androguard_apk_obj bug st =
     (case map_of bug ''MANIFESTPARAMS'' of
        None \<Rightarrow> Inl KeyError
      | Some manifest_obj \<Rightarrow>
          if manifest_obj = JDict [] then Inr st
          else
            let st1 = st\<lparr>current_bug_search_types := current_bug_search_types st + 1\<rparr>
            in (case androguard_apk_obj of
                  None \<Rightarrow> Inr st1
                | Some a \<Rightarrow>
                    (case fn_perform_manifest_analysis a (current_links st1) of
                       (manifest_output, l) \<Rightarrow>
                         let st2 = st1\<lparr>current_links := l\<rparr>
                         in if manifest_output
                            then Inr (st2\<lparr>current_bug_search_outcomes :=
                                             current_bug_search_outcomes st2 + 1\<rparr>)
                            else Inr st2)))"

definition fn_handle_code_analysis ::
  "code_analysis \<Rightarrow> (string \<times> json) list \<Rightarrow> bug_state \<Rightarrow> error + bug_state" where
  "fn_handle_code_analysis fn_perform_code_analysis bug st =
     (case map_of bug ''CODEPARAMS'' of
        None \<Rightarrow> Inl KeyError
      | Some code_obj \<Rightarrow>
          if code_obj = JDict [] then Inr st
          else
            let st1 = st\<lparr>current_bug_search_types := current_bug_search_types st + 1\<rparr>
            in (case fn_perform_code_analysis (current_links st1) of
                  Inl e \<Rightarrow> Inl e
                | Inr (code_output, l) \<Rightarrow>
                    let st2 = st1\<lparr>current_links := l\<rparr>
                    in if code_output
                       then Inr (st2\<lparr>current_bug_search_outcomes :=
                                        current_bug_search_outcomes st2 + 1\<rparr>)
                       else Inr st2))"

text \<open>The loop over the keys of one bug template ("Start search enumeration").\<close>

fun search_enumeration ::
  "'apk manifest_analysis \<Rightarrow> code_analysis \<Rightarrow> 'apk option \<Rightarrow> (string \<times> json) list
     \<Rightarrow> string list \<Rightarrow> bug_state \<Rightarrow> error + bug_state" where
  "search_enumeration ma ca apk bug [] st = Inr st"
| "search_enumeration ma ca apk bug (searchparams_key # keys) st =
     (case (if searchparams_key = ''MANIFESTPARAMS''
            then fn_handle_manifest_analysis ma apk bug st else Inr st) of
        Inl e \<Rightarrow> Inl e
      | Inr st1 \<Rightarrow>
          (case (if searchparams_key = ''CODEPARAMS''
                 then fn_handle_code_analysis ca bug st1 else Inr st1) of
             Inl e \<Rightarrow> Inl e
           | Inr st2 \<Rightarrow> search_enumeration ma ca apk bug keys st2))"

text \<open>
  The body of \<open>fn_per_bug_analysis\<close> for one bug: the verdict stored in
  \<open>current_app_bug_obj[bug]\<close>, which \<open>fn_initialise_bug_obj\<close> set to False.
  An exception leaves the loop, and no verdict is stored.
\<close>

definition fn_per_bug_analysis ::
  "'apk manifest_analysis \<Rightarrow> code_analysis \<Rightarrow> 'apk option \<Rightarrow> (string \<times> json) list
     \<Rightarrow> error + bool" where
  "fn_per_bug_analysis ma ca apk bug =
     (case search_enumeration ma ca apk bug (map fst bug)
             \<lparr>current_bug_search_types = 0, current_bug_search_outcomes = 0,
              current_links = Map.empty\<rparr> of
        Inl e \<Rightarrow> Inl e
      | Inr st \<Rightarrow>
          Inr (current_bug_search_types st = current_bug_search_outcomes st))"

section \<open>Properties of the link table\<close>

definition extends_by :: "string list \<Rightarrow> string list \<Rightarrow> string list \<Rightarrow> bool" where
  "extends_by old new ys \<longleftrightarrow> new = old @ ys \<and> distinct ys \<and> set ys \<inter> set old = {}"

lemma extends_by_refl: "extends_by xs xs []"
  by (simp add: extends_by_def)

lemma extends_by_trans:
  assumes "extends_by xs ys as" and "extends_by ys zs bs"
  shows "extends_by xs zs (as @ bs)"
  using assms by (auto simp: extends_by_def)

lemma link_step_extends:
  assumes "link_step key v l = Inr l'"
  shows "\<exists>ys. extends_by (fn_get_linked_items l k) (fn_get_linked_items l' k) ys"
proof (cases "l' = l")
  case True
  then show ?thesis using extends_by_refl by blast
next
  case False
  with assms have "extends_by (fn_get_linked_items l k) (fn_get_linked_items l' k)
                     (if k = key then [v] else [])"
    by (auto simp: link_step_def fn_get_linked_items_def extends_by_def
             split: list.splits if_splits option.splits)
  then show ?thesis by blast
qed

lemma convert_object_extends:
  "\<exists>ys. extends_by (fn_get_linked_items l k)
          (fn_get_linked_items (snd (convert_object r l)) k) ys"
proof (induction r arbitrary: l)
  case Nil
  show ?case using extends_by_refl by auto
next
  case (Cons kv kvs)
  obtain key v where kv: "kv = (key, v)" by (cases kv)
  show ?case
  proof (cases "link_step key v l")
    case (Inl e)
    then show ?thesis using kv extends_by_refl by auto
  next
    case (Inr l')
    from link_step_extends [OF Inr] obtain as where
      "extends_by (fn_get_linked_items l k) (fn_get_linked_items l' k) as" by blast
    moreover from Cons.IH [of l'] obtain bs where
      "extends_by (fn_get_linked_items l' k)
         (fn_get_linked_items (snd (convert_object kvs l')) k) bs" by blast
    ultimately have "extends_by (fn_get_linked_items l k)
         (fn_get_linked_items (snd (convert_object kvs l')) k) (as @ bs)"
      by (rule extends_by_trans)
    then show ?thesis using kv Inr by auto
  qed
qed

lemma convert_returns_extends:
  "\<exists>ys. extends_by (fn_get_linked_items l k)
          (fn_get_linked_items (snd (fn_convert_returns_to_links rs l)) k) ys"
proof (induction rs arbitrary: l)
  case Nil
  show ?case using extends_by_refl by auto
next
  case (Cons r rs)
  obtain e l' where r: "convert_object r l = (e, l')" by (cases "convert_object r l")
  from convert_object_extends [of l k r] r obtain as where
    as: "extends_by (fn_get_linked_items l k) (fn_get_linked_items l' k) as" by auto
  show ?case
  proof (cases e)
    case None
    from Cons.IH [of l'] obtain bs where
      "extends_by (fn_get_linked_items l' k)
         (fn_get_linked_items (snd (fn_convert_returns_to_links rs l')) k) bs" by blast
    with as have "extends_by (fn_get_linked_items l k)
         (fn_get_linked_items (snd (fn_convert_returns_to_links rs l')) k) (as @ bs)"
      by (rule extends_by_trans)
    then show ?thesis using r None by auto
  next
    case (Some err)
    then show ?thesis using r as by auto
  qed
qed

text \<open>
  C4. The link table is append-only: whatever list of returnable items is
  converted, under every identifier the old list of values is a prefix of the
  new one (nothing is overwritten or removed and the order is kept), the values
  added are pairwise different and were not in the list before, and an unknown
  identifier resolves to the empty list.
\<close>

theorem link_table_append_only:
  "(\<exists>ys. fn_get_linked_items (snd (fn_convert_returns_to_links rs l)) k
            = fn_get_linked_items l k @ ys
          \<and> distinct ys \<and> set ys \<inter> set (fn_get_linked_items l k) = {})
   \<and> (k \<notin> dom l \<longrightarrow> fn_get_linked_items l k = [])"
proof
  from convert_returns_extends [of l k rs]
  show "\<exists>ys. fn_get_linked_items (snd (fn_convert_returns_to_links rs l)) k
            = fn_get_linked_items l k @ ys
          \<and> distinct ys \<and> set ys \<inter> set (fn_get_linked_items l k) = {}"
    by (simp add: extends_by_def)
  show "k \<notin> dom l \<longrightarrow> fn_get_linked_items l k = []"
    by (auto simp: fn_get_linked_items_def split: option.splits)
qed

theorem link_table_append_only_witness:
  "(\<exists>ys. fn_get_linked_items
            (snd (fn_convert_returns_to_links
                    [[(''@y'', ''b'')], [(''@x'', ''a'')], [(''@y'', ''b'')]]
                    [''@x'' \<mapsto> [''a'']])) ''@y''
            = fn_get_linked_items [''@x'' \<mapsto> [''a'']] ''@y'' @ ys
          \<and> distinct ys
          \<and> set ys \<inter> set (fn_get_linked_items [''@x'' \<mapsto> [''a'']] ''@y'') = {})
   \<and> ''@y'' \<notin> dom [''@x'' \<mapsto> [''a'']]
   \<and> fn_get_linked_items [''@x'' \<mapsto> [''a'']] ''@y'' = []"
  using link_table_append_only
          [of "[[(''@y'', ''b'')], [(''@x'', ''a'')], [(''@y'', ''b'')]]"
              "[''@x'' \<mapsto> [''a'']]" "''@y''"]
  by (simp add: link_step_def fn_get_linked_items_def)

section \<open>Properties of the bug evaluator\<close>

lemma manifest_dex_counts:
  assumes "fn_handle_manifest_analysis ma None bug st = Inr st'"
      and "map_of bug ''MANIFESTPARAMS'' = Some m" and "m \<noteq> JDict []"
  shows "current_bug_search_types st' = current_bug_search_types st + 1
         \<and> current_bug_search_outcomes st' = current_bug_search_outcomes st"
  using assms by (auto simp: fn_handle_manifest_analysis_def Let_def)

lemma code_counts:
  assumes "fn_handle_code_analysis ca bug st = Inr st'"
  shows "current_bug_search_types st' - current_bug_search_types st
           \<ge> current_bug_search_outcomes st' - current_bug_search_outcomes st
         \<and> current_bug_search_types st' \<ge> current_bug_search_types st
         \<and> current_bug_search_outcomes st' \<ge> current_bug_search_outcomes st"
  using assms
  by (auto simp: fn_handle_code_analysis_def Let_def
           split: option.splits if_splits sum.splits prod.splits)

text \<open>
  In .dex mode the gap between the number of categories counted and the number
  satisfied never shrinks, and it grows with every MANIFESTPARAMS key.
\<close>

lemma search_enumeration_dex_gap:
  assumes "search_enumeration ma ca None bug keys st = Inr st'"
      and "map_of bug ''MANIFESTPARAMS'' = Some m" and "m \<noteq> JDict []"
      and "current_bug_search_outcomes st \<le> current_bug_search_types st"
  shows "current_bug_search_outcomes st' \<le> current_bug_search_types st'
         \<and> (''MANIFESTPARAMS'' \<in> set keys
              \<or> current_bug_search_outcomes st < current_bug_search_types st
             \<longrightarrow> current_bug_search_outcomes st' < current_bug_search_types st')"
  using assms
proof (induction keys arbitrary: st)
  case Nil
  then show ?case by simp
next
  case (Cons key keys)
  show ?case
  proof (cases "key = ''MANIFESTPARAMS''")
    case True
    with Cons.prems(1) obtain st1 where
      st1: "fn_handle_manifest_analysis ma None bug st = Inr st1"
      and rest: "search_enumeration ma ca None bug keys st1 = Inr st'"
      by (auto split: sum.splits)
    from manifest_dex_counts [OF st1 Cons.prems(2,3)] Cons.prems(4)
    have lt: "current_bug_search_outcomes st1 < current_bug_search_types st1" by simp
    with Cons.IH [OF rest Cons.prems(2,3)] show ?thesis by simp
  next
    case False
    show ?thesis
    proof (cases "key = ''CODEPARAMS''")
      case True
      with Cons.prems(1) obtain st1 where
        st1: "fn_handle_code_analysis ca bug st = Inr st1"
        and rest: "search_enumeration ma ca None bug keys st1 = Inr st'"
        by (auto split: sum.splits)
      from code_counts [OF st1] Cons.prems(4)
      have le: "current_bug_search_outcomes st1 \<le> current_bug_search_types st1"
        and keep: "current_bug_search_outcomes st < current_bug_search_types st
                   \<longrightarrow> current_bug_search_outcomes st1 < current_bug_search_types st1"
        by auto
      from Cons.IH [OF rest Cons.prems(2,3) le] keep \<open>key \<noteq> ''MANIFESTPARAMS''\<close>
      show ?thesis by auto
    next
      case False
      with \<open>key \<noteq> ''MANIFESTPARAMS''\<close> Cons.prems(1)
      have rest: "search_enumeration ma ca None bug keys st = Inr st'" by simp
      from Cons.IH [OF rest Cons.prems(2,3,4)] \<open>key \<noteq> ''MANIFESTPARAMS''\<close>
      show ?thesis by auto
    qed
  qed
qed

lemma search_enumeration_dex_total:
  assumes ca: "\<forall>l. \<exists>r. ca l = Inr r" and keys: "set keys \<subseteq> fst ` set bug"
  shows "\<exists>st'. search_enumeration ma ca None bug keys st = Inr st'"
  using keys
proof (induction keys arbitrary: st)
  case Nil
  show ?case by simp
next
  case (Cons key keys)
  from Cons.prems obtain v where v: "map_of bug key = Some v"
    by (metis insert_subset list.simps(15) map_of_eq_None_iff not_Some_eq)
  from Cons.prems have keys: "set keys \<subseteq> fst ` set bug" by simp
  have m: "\<exists>st1. fn_handle_manifest_analysis ma None bug st = Inr st1"
    if "key = ''MANIFESTPARAMS''"
    using v that by (simp add: fn_handle_manifest_analysis_def Let_def)
  have c: "\<exists>st2. fn_handle_code_analysis ca bug st1 = Inr st2"
    if "key = ''CODEPARAMS''" for st1
  proof -
    obtain b l where "ca (current_links
         (st1\<lparr>current_bug_search_types := current_bug_search_types st1 + 1\<rparr>)) = Inr (b, l)"
      using ca by (metis surj_pair)
    then show ?thesis
      using v that by (simp add: fn_handle_code_analysis_def Let_def)
  qed
  show ?case
  proof (cases "key = ''MANIFESTPARAMS''")
    case True
    with m obtain st1 where "fn_handle_manifest_analysis ma None bug st = Inr st1" by blast
    with True Cons.IH [OF keys, of st1] show ?thesis by simp
  next
    case False
    show ?thesis
    proof (cases "key = ''CODEPARAMS''")
      case True
      with c obtain st2 where "fn_handle_code_analysis ca bug st = Inr st2" by blast
      with True Cons.IH [OF keys, of st2] show ?thesis by simp
    next
      case False
      with \<open>key \<noteq> ''MANIFESTPARAMS''\<close> Cons.IH [OF keys, of st] show ?thesis by simp
    qed
  qed
qed

text \<open>
  C10. When a .dex file is analysed (no APK object), a bug whose template has a
  non-empty MANIFESTPARAMS section is never reported satisfied, whatever the
  code analysis returns: the manifest category is counted but never evaluated.
  When the code analysis does not raise, the verdict stored is False.
\<close>

theorem dex_manifest_bug_unsatisfied:
  assumes "map_of bug ''MANIFESTPARAMS'' = Some m" and "m \<noteq> JDict []"
  shows "fn_per_bug_analysis ma ca None bug \<noteq> Inr True
         \<and> ((\<forall>l. \<exists>r. ca l = Inr r) \<longrightarrow> fn_per_bug_analysis ma ca None bug = Inr False)"
proof -
  let ?st0 = "\<lparr>current_bug_search_types = 0, current_bug_search_outcomes = 0,
                current_links = Map.empty\<rparr>"
  from assms(1) have key: "''MANIFESTPARAMS'' \<in> set (map fst bug)"
    by (metis map_of_eq_None_iff option.distinct(1) set_map)
  have verdict: "current_bug_search_types st \<noteq> current_bug_search_outcomes st"
    if "search_enumeration ma ca None bug (map fst bug) ?st0 = Inr st" for st
    using search_enumeration_dex_gap [OF that assms] key by simp
  have no_true: "fn_per_bug_analysis ma ca None bug \<noteq> Inr True"
    using verdict by (auto simp: fn_per_bug_analysis_def split: sum.splits)
  have "fn_per_bug_analysis ma ca None bug = Inr False" if ca: "\<forall>l. \<exists>r. ca l = Inr r"
  proof -
    from search_enumeration_dex_total [OF ca, of "map fst bug" bug ma ?st0]
    obtain st where st: "search_enumeration ma ca None bug (map fst bug) ?st0 = Inr st"
      by auto
    with verdict [OF st] show ?thesis by (simp add: fn_per_bug_analysis_def)
  qed
  with no_true show ?thesis by blast
qed

theorem dex_manifest_bug_unsatisfied_witness:
  "map_of [(''METADATA'', JDict []),
           (''MANIFESTPARAMS'', JDict [(''BASEPATH'', JStr ''manifest'')]),
           (''CODEPARAMS'', JDict [(''SEARCH'', JDict [])])] ''MANIFESTPARAMS''
     = Some (JDict [(''BASEPATH'', JStr ''manifest'')])
   \<and> JDict [(''BASEPATH'', JStr ''manifest'')] \<noteq> JDict []
   \<and> (\<forall>l. \<exists>r. (\<lambda>l. Inr (True, l)) l = (Inr r :: error + (bool \<times> links)))
   \<and> fn_per_bug_analysis (\<lambda>(a::unit) l. (True, l)) (\<lambda>l. Inr (True, l)) None
        [(''METADATA'', JDict []),
         (''MANIFESTPARAMS'', JDict [(''BASEPATH'', JStr ''manifest'')]),
         (''CODEPARAMS'', JDict [(''SEARCH'', JDict [])])] = Inr False"
  using dex_manifest_bug_unsatisfied
          [of "[(''METADATA'', JDict []),
                (''MANIFESTPARAMS'', JDict [(''BASEPATH'', JStr ''manifest'')]),
                (''CODEPARAMS'', JDict [(''SEARCH'', JDict [])])]"
              "JDict [(''BASEPATH'', JStr ''manifest'')]"
              "\<lambda>(a::unit) l. (True, l)" "\<lambda>l. Inr (True, l)"]
  by auto

section \<open>Properties of the template validation\<close>

text \<open>The templates of the examples are admitted by the validation.\<close>

lemma example_templates_admitted:
  "fn_check_code_search rule_calls_m = Inr ()
   \<and> fn_check_code_search rule_calls_m_from_y = Inr ()
   \<and> fn_check_code_search (JList [rule_calls_m, rule_calls_m_from_y]) = Inr ()
   \<and> fn_check_code_search rule_filtered_calls = Inr ()
   \<and> fn_check_code_search rule_calls_a_m = Inr ()
   \<and> fn_check_code_trace trace_a_to_c = Inr ()
   \<and> fn_check_code_trace trace_f_to_t = Inr ()
   \<and> fn_check_code_trace trace_a_to_t = Inr ()
   \<and> fn_check_code_trace trace_f_to_t_forward = Inr ()"
  by code_simp

text \<open>
  The RETURN elements of a search are checked one by one: each is split around
  \<open>AS\<close>, its type and the first character of its identifier are tested, and no
  element is compared with another.
\<close>

lemma search_returns_checked_one_by_one:
  "check_search_returns xs = Inr () \<longleftrightarrow> (\<forall>x \<in> set xs. check_search_returns [x] = Inr ())"
  by (induction xs) (auto split: sum.splits if_splits)

lemma manifest_returns_checked_one_by_one:
  "check_return_elements xs = Inr () \<longleftrightarrow> (\<forall>x \<in> set xs. check_return_element x = Inr ())"
  by (induction xs) (auto split: sum.splits)

text \<open>
  C9. The templates with an identifier used twice and the template with the
  identifier \<open>@app\<close> pass the validation and are admitted into the master
  template object; the search of the first binds the class and the method of
  the call site under the one identifier. The template editor refuses both
  identifiers: \<open>x\<close> when \<open>@x\<close> is already used, and \<open>app\<close>.
\<close>

theorem duplicate_and_reserved_returns_admitted:
  "fn_parse_templates
     [Some (search_template ''DuplicateReturns'' duplicate_returns_rule),
      Some duplicate_manifest_returns_template,
      Some (search_template ''ReservedReturn'' reserved_return_rule)] []
     = [''DuplicateReturns'', ''DuplicateManifestReturns'', ''ReservedReturn'']
   \<and> outcome [''@x''] (fn_perform_code_search click_utils duplicate_returns_rule Map.empty)
       = Inr (True, [[''Ly;'', ''Ly;->run()V'']])
   \<and> fn_check_return_validity [''@x''] (Some ''x'') = Invalid ''return_exists''
   \<and> fn_check_return_validity [] (Some ''app'') = Invalid ''reserved''"
  by code_simp

section \<open>Properties of the search engine\<close>

lemma split_scan_not_Nil: "split_scan sep skip cur s \<noteq> []"
  by (induction s arbitrary: skip cur) auto

lemma py_split_not_Nil: "py_split s sep \<noteq> []"
  by (simp add: py_split_def split_scan_not_Nil)

text \<open>
  The configuration value is a string, and a string is neither True nor False:
  whatever the configuration file says, the flag is reset to False.
\<close>

lemma keep_user_interaction_False:
  "keep_user_interaction (AnalysisUtils conf dx so mo) = PyBool False"
  by (auto simp: AnalysisUtils_def read_keep_user_interaction_def split: option.splits)

lemma calls_to_xrefs_not_interactive:
  assumes "keep_user_interaction u = PyBool False"
      and "\<forall>m \<in> set acc. \<not> fn_check_for_user_interaction_element (get_name m)"
  shows "\<forall>m \<in> set (calls_to_xrefs u xs acc).
           \<not> fn_check_for_user_interaction_element (get_name m)"
  using assms(2)
proof (induction xs arbitrary: acc)
  case Nil
  then show ?case by simp
next
  case (Cons x xs)
  show ?case
  proof (cases "fn_check_for_user_interaction_element (get_name x)")
    case True
    with assms(1) Cons.IH [OF Cons.prems] show ?thesis by simp
  next
    case False
    with Cons.prems
    have "\<forall>m \<in> set (acc @ [x]). \<not> fn_check_for_user_interaction_element (get_name m)"
      by simp
    from Cons.IH [OF this] Cons.IH [OF Cons.prems] False show ?thesis by simp
  qed
qed

lemma calls_to_methods_not_interactive:
  assumes "keep_user_interaction u = PyBool False"
      and "\<forall>m \<in> set acc. \<not> fn_check_for_user_interaction_element (get_name m)"
  shows "\<forall>m \<in> set (calls_to_methods u ms acc).
           \<not> fn_check_for_user_interaction_element (get_name m)"
  using assms
proof (induction ms arbitrary: acc)
  case Nil
  then show ?case by simp
next
  case (Cons m ms)
  from calls_to_xrefs_not_interactive [OF Cons.prems]
  have "\<forall>x \<in> set (calls_to_xrefs u (get_xref_from (androguard_dx u) m) acc).
          \<not> fn_check_for_user_interaction_element (get_name x)" .
  from Cons.IH [OF Cons.prems(1) this] show ?case by simp
qed

text \<open>
  By default, and under every configuration, no caller whose name is on the
  list of interactive callbacks is among the call sites of a method.
\<close>

lemma interactive_callers_dropped:
  "\<forall>m \<in> set (fn_get_calls_to_method (AnalysisUtils conf dx so mo) c n d).
     get_name m \<notin> set user_interaction_events"
proof -
  have "\<forall>m \<in> set (fn_get_calls_to_method (AnalysisUtils conf dx so mo) c n d).
          \<not> fn_check_for_user_interaction_element (get_name m)"
    unfolding fn_get_calls_to_method_def
    by (rule calls_to_methods_not_interactive [OF keep_user_interaction_False]) simp
  then show ?thesis
    by (auto simp: fn_check_for_user_interaction_element_def list_ex_iff)
qed

text \<open>
  C6. With KEEP\_INTERACTIVE\_ELEMENTS set to True in the configuration, the
  call site in \<open>onClick\<close> is still left out of the callers of \<open>Lt;->m()V\<close>:
  only \<open>Ly;->run()V\<close> is reported.
\<close>

theorem keep_interactive_flag_ignored:
  "keep_user_interaction click_utils = PyBool False
   \<and> fn_get_calls_to_method click_utils ''Lt;'' ''m'' ''()V'' = [mk_method ''Ly;'' ''run'' ''()V'']"
  by code_simp

text \<open>The existence searches never return a verdict.\<close>

lemma presence_of_string_raises:
  "xs \<noteq> [] \<Longrightarrow> \<exists>e. fn_search_for_presence_of_string u xs = Inl e"
  by (cases xs) (auto simp: fn_search_for_presence_of_string_def fn_get_strings_def)

lemma presence_of_method_raises: "\<exists>e. fn_search_for_presence_of_method u xs = Inl e"
  by (auto simp: fn_search_for_presence_of_method_def split: sum.splits)

lemma presence_of_class_raises: "\<exists>e. fn_search_for_presence_of_class u xs = Inl e"
  by (auto simp: fn_search_for_presence_of_class_def split: sum.splits)

lemma identify_string_items_not_Nil:
  "fn_identify_search_items u l ''STRING'' input = Inr xs \<Longrightarrow> xs \<noteq> []"
  by (auto simp: fn_identify_search_items_def Let_def py_split_not_Nil split: if_splits)

lemma existence_searches_raise:
  "(\<exists>e. fn_determine_search_type u l (JStr ''SEARCHFORSTRING'') obj r = Inl e)
   \<and> (\<exists>e. fn_determine_search_type u l (JStr ''SEARCHFORMETHOD'') obj r = Inl e)
   \<and> (\<exists>e. fn_determine_search_type u l (JStr ''SEARCHFORCLASS'') obj r = Inl e)"
proof (intro conjI)
  show "\<exists>e. fn_determine_search_type u l (JStr ''SEARCHFORSTRING'') obj r = Inl e"
  proof (cases "search_target obj ''STRING''")
    case (Inl e)
    then show ?thesis by (simp add: fn_determine_search_type_def existence_search_def)
  next
    case (Inr di)
    obtain d input where di: "di = (d, input)" by (cases di)
    show ?thesis
    proof (cases "fn_identify_search_items u l ''STRING'' input")
      case (Inl e)
      with Inr di show ?thesis
        by (simp add: fn_determine_search_type_def existence_search_def)
    next
      case items: (Inr xs)
      from identify_string_items_not_Nil [OF items] presence_of_string_raises
      obtain e where "fn_search_for_presence_of_string u xs = Inl e" by blast
      with Inr di items show ?thesis
        by (simp add: fn_determine_search_type_def existence_search_def)
    qed
  qed
next
  show "\<exists>e. fn_determine_search_type u l (JStr ''SEARCHFORMETHOD'') obj r = Inl e"
    using presence_of_method_raises [of u]
    by (auto simp: fn_determine_search_type_def existence_search_def
             split: sum.splits prod.splits) (metis Inl_Inr_False)
next
  show "\<exists>e. fn_determine_search_type u l (JStr ''SEARCHFORCLASS'') obj r = Inl e"
    using presence_of_class_raises [of u]
    by (auto simp: fn_determine_search_type_def existence_search_def
             split: sum.splits prod.splits) (metis Inl_Inr_False)
qed

text \<open>
  Whatever the target, an existence search whose search object is a string
  raises TypeError when the engine subscripts it.
\<close>

lemma existence_search_of_string_raises:
  assumes "t \<in> set existence_search_types"
  shows "fn_determine_search_type u l (JStr t) (JStr s) r = Inl TypeError"
  using assms
  by (auto simp add: existence_search_types_def fn_determine_search_type_def
        existence_search_def search_target_def)

text \<open>
  C3. The template of an existence search for a method that the application
  defines is admitted by the template validation, and its search raises
  TypeError instead of returning a verdict. With the target under the key
  METHOD of an object, the form the engine subscripts, the template is refused
  and no search is made; the search of that form would raise NameError.
\<close>

theorem admitted_method_exists_raises_TypeError:
  "fn_parse_templates [Some (search_template ''MethodExists'' rule_method_exists)] [] = [''MethodExists'']
   \<and> outcome [] (fn_perform_code_search click_utils rule_method_exists Map.empty)
       = Inl TypeError
   \<and> fn_parse_templates [Some (search_template ''MethodExists'' rule_method_exists_object)] [] = []
   \<and> outcome [] (fn_perform_code_search click_utils rule_method_exists_object Map.empty)
       = Inl (NameError ''all_methods'')"
  by code_simp

text \<open>A SEARCH given as a non-empty list of rule objects never returns a verdict.\<close>

lemma search_list_loop_raises:
  "\<exists>e. search_list_loop u l (JList (x # xs)) (x # xs) 0 0 [] = Inl e"
proof -
  have det: "\<exists>e. fn_determine_search_type u l x obj r = Inl e"
    if "py_getitem (JList (x # xs)) x = Inr obj" for obj r
  proof -
    from that have "\<forall>s. x \<noteq> JStr s" by (cases x) auto
    then show ?thesis by (auto simp: fn_determine_search_type_def)
  qed
  have "\<exists>e. search_items_loop u l (JList (x # xs)) (x # xs) 0 0 [] = Inl e"
  proof (cases "py_getitem (JList (x # xs)) x")
    case (Inl e)
    then show ?thesis by simp
  next
    case (Inr obj)
    with det [OF Inr, of "[]"] show ?thesis by auto
  qed
  then have "\<exists>e. fn_process_individual_search_item u l (JList (x # xs)) x [] = Inl e"
    by (simp add: fn_process_individual_search_item_def)
  then show ?thesis by auto
qed

lemma search_list_raises:
  "\<exists>e. fn_perform_code_search u (JList (x # xs)) l = Inl e"
  using search_list_loop_raises [of u l x xs] by (auto simp: fn_perform_code_search_def)

text \<open>
  C2. Each of the two rule objects is satisfied when it is the whole SEARCH,
  but the SEARCH made of the list of the two raises TypeError.
\<close>

theorem search_rule_list_raises_TypeError:
  "outcome [] (fn_perform_code_search click_utils rule_calls_m Map.empty) = Inr (True, [])
   \<and> outcome [] (fn_perform_code_search click_utils rule_calls_m_from_y Map.empty)
       = Inr (True, [])
   \<and> outcome [] (fn_perform_code_search click_utils
                   (JList [rule_calls_m, rule_calls_m_from_y]) Map.empty) = Inl TypeError"
  by code_simp

text \<open>
  C5. The search is satisfied through the call site in \<open>Lgood;\<close>; the call
  site in \<open>Lbad;\<close>, which the location filter rejects, is bound under \<open>@x\<close> as
  well, and first.
\<close>

theorem unfiltered_call_site_bound:
  "fn_check_callers_against_expectation (mk_method ''Lbad;'' ''f'' ''()V'')
     ''Lgood;'' ''<class>'' False = Inr False
   \<and> outcome [''@x''] (fn_perform_code_search filter_utils rule_filtered_calls Map.empty)
       = Inr (True, [[''Lbad;'', ''Lgood;'']])"
  by code_simp

section \<open>The code search under a change of set order\<close>


lemma agree_simps [simp]:
  "agree P (Inl e) (Inl e') = True"
  "agree P (Inl e) (Inr b) = False"
  "agree P (Inr a) (Inl e') = False"
  "agree P (Inr a) (Inr b) = P a b"
  by (simp_all add: agree_def)

lemma agreeI:
  assumes "\<And>e. r1 = Inl e \<Longrightarrow> \<exists>e'. r2 = Inl e'"
      and "\<And>a. r1 = Inr a \<Longrightarrow> \<exists>b. r2 = Inr b \<and> P a b"
  shows "agree P r1 r2"
  using assms by (cases r1; cases r2) auto

lemma same_set:
  "valid_set_orders u \<Longrightarrow> set (str_set_order u xs) = set xs"
  "valid_set_orders u \<Longrightarrow> set (method_set_order u ms) = set ms"
  by (simp_all add: valid_set_orders_def)

text \<open>
  The subclasses found do not depend on the orders, as a set. The loop of
  \<open>fn_find_subclasses\<close> over the class table raises when the search below one
  of the direct subclasses does, and otherwise collects the direct subclasses
  and what is found below them.
\<close>

lemma find_subclasses_loop_Inl:
  "(\<exists>e. find_subclasses_loop n u c xs acc = Inl e)
   \<longleftrightarrow> (\<exists>sub. (sub, c) \<in> set xs \<and> (\<exists>e. find_subclasses_depth n u sub = Inl e))"
proof (induction xs arbitrary: acc)
  case Nil
  show ?case by simp
next
  case (Cons x xs)
  obtain sub sup where x: "x = (sub, sup)" by (cases x)
  show ?case
  proof (cases "sup = c")
    case False
    with Cons.IH show ?thesis by (simp add: x)
  next
    case True
    show ?thesis
    proof (cases "find_subclasses_depth n u sub")
      case (Inl e)
      with True show ?thesis by (auto simp add: x)
    next
      case (Inr below)
      with True Cons.IH [of "(acc @ [sub]) @ below"] show ?thesis by (auto simp add: x)
    qed
  qed
qed

lemma find_subclasses_loop_Inr:
  "find_subclasses_loop n u c xs acc = Inr out
   \<Longrightarrow> set out = set acc
         \<union> {s. \<exists>sub. (sub, c) \<in> set xs
                \<and> (s = sub \<or> (\<exists>below. find_subclasses_depth n u sub = Inr below
                                        \<and> s \<in> set below))}"
proof (induction xs arbitrary: acc)
  case Nil
  then show ?case by simp
next
  case (Cons x xs)
  obtain sub sup where x: "x = (sub, sup)" by (cases x)
  show ?case
  proof (cases "sup = c")
    case False
    with Cons.prems have "find_subclasses_loop n u c xs acc = Inr out" by (simp add: x)
    from Cons.IH [OF this] False show ?thesis by (auto simp add: x)
  next
    case True
    with Cons.prems obtain below where
      below: "find_subclasses_depth n u sub = Inr below"
      and rest: "find_subclasses_loop n u c xs ((acc @ [sub]) @ below) = Inr out"
      by (auto simp add: x split: sum.splits)
    have "\<exists>e. find_subclasses_loop n u c xs ((acc @ [sub]) @ below) = Inl e \<Longrightarrow> False"
      using rest by auto
    from Cons.IH [OF rest] True below show ?thesis
      by (auto simp add: x)
  qed
qed

lemma internal_classes_same:
  assumes "same_index dx1 dx2"
  shows "set (get_internal_classes dx1) = set (get_internal_classes dx2)"
  using assms by (simp add: get_internal_classes_def same_index_def)

lemma find_subclasses_depth_agree:
  assumes "valid_set_orders u1" and "valid_set_orders u2" and "same_application u1 u2"
  shows "agree (\<lambda>a b. set a = set b)
           (find_subclasses_depth n u1 c) (find_subclasses_depth n u2 c)"
proof (induction n arbitrary: c)
  case 0
  show ?case by simp
next
  case (Suc n)
  let ?xs1 = "get_internal_classes (androguard_dx u1)"
  let ?xs2 = "get_internal_classes (androguard_dx u2)"
  from assms(3) have xs: "set ?xs1 = set ?xs2"
    by (simp add: same_application_def internal_classes_same)
  have inl: "(\<exists>e. find_subclasses_depth n u1 sub = Inl e)
             \<longleftrightarrow> (\<exists>e. find_subclasses_depth n u2 sub = Inl e)" for sub
    using Suc.IH [of sub]
    by (cases "find_subclasses_depth n u1 sub"; cases "find_subclasses_depth n u2 sub") auto
  have inr: "(\<exists>below. find_subclasses_depth n u1 sub = Inr below \<and> s \<in> set below)
             \<longleftrightarrow> (\<exists>below. find_subclasses_depth n u2 sub = Inr below \<and> s \<in> set below)"
    for sub s
    using Suc.IH [of sub]
    by (cases "find_subclasses_depth n u1 sub"; cases "find_subclasses_depth n u2 sub") auto
  show ?case
  proof (cases "find_subclasses_loop n u1 c ?xs1 []")
    case (Inl e)
    then have "\<exists>sub. (sub, c) \<in> set ?xs1 \<and> (\<exists>e. find_subclasses_depth n u1 sub = Inl e)"
      using find_subclasses_loop_Inl [of n u1 c ?xs1 "[]"] by blast
    then have "\<exists>sub. (sub, c) \<in> set ?xs2 \<and> (\<exists>e. find_subclasses_depth n u2 sub = Inl e)"
      using inl xs by blast
    then obtain e' where "find_subclasses_loop n u2 c ?xs2 [] = Inl e'"
      using find_subclasses_loop_Inl [of n u2 c ?xs2 "[]"] by blast
    with Inl show ?thesis by simp
  next
    case (Inr out1)
    have "\<not> (\<exists>e. find_subclasses_loop n u2 c ?xs2 [] = Inl e)"
    proof
      assume "\<exists>e. find_subclasses_loop n u2 c ?xs2 [] = Inl e"
      then have "\<exists>sub. (sub, c) \<in> set ?xs2 \<and> (\<exists>e. find_subclasses_depth n u2 sub = Inl e)"
        using find_subclasses_loop_Inl [of n u2 c ?xs2 "[]"] by blast
      then have "\<exists>sub. (sub, c) \<in> set ?xs1 \<and> (\<exists>e. find_subclasses_depth n u1 sub = Inl e)"
        using inl xs by blast
      then have "\<exists>e. find_subclasses_loop n u1 c ?xs1 [] = Inl e"
        using find_subclasses_loop_Inl [of n u1 c ?xs1 "[]"] by blast
      with Inr show False by simp
    qed
    then obtain out2 where out2: "find_subclasses_loop n u2 c ?xs2 [] = Inr out2"
      by (cases "find_subclasses_loop n u2 c ?xs2 []") auto
    have "set out1 = set out2"
      unfolding find_subclasses_loop_Inr [OF Inr] find_subclasses_loop_Inr [OF out2] xs
      using inr by simp
    with Inr out2 show ?thesis by (simp add: same_set assms(1,2))
  qed
qed

lemma fn_find_subclasses_agree:
  assumes "valid_set_orders u1" and "valid_set_orders u2" and "same_application u1 u2"
  shows "agree (\<lambda>a b. set a = set b) (fn_find_subclasses u1 c) (fn_find_subclasses u2 c)"
proof -
  from assms(3) have "length (classes (androguard_dx u1)) = length (classes (androguard_dx u2))"
    by (simp add: same_application_def same_index_def)
  then show ?thesis
    unfolding fn_find_subclasses_def
    using find_subclasses_depth_agree
            [OF assms, of "Suc (length (classes (androguard_dx u2)))" c]
    by (simp only:)
qed

text \<open>
  The callers of a method and of a class, as sets: the callers listed by the
  cross references of the methods or classes that match, without the
  interactive ones.
\<close>

lemma set_calls_to_xrefs:
  "set (calls_to_xrefs u xs acc)
     = set acc \<union> {x \<in> set xs. \<not> (keep_user_interaction u = PyBool False
                                    \<and> fn_check_for_user_interaction_element (get_name x))}"
  by (induction xs arbitrary: acc) auto

lemma set_calls_to_methods:
  "set (calls_to_methods u ms acc)
     = set acc \<union> {x. \<exists>m \<in> set ms. (x, m) \<in> set (method_xrefs (androguard_dx u))
                      \<and> \<not> (keep_user_interaction u = PyBool False
                             \<and> fn_check_for_user_interaction_element (get_name x))}"
proof (induction ms arbitrary: acc)
  case Nil
  show ?case by simp
next
  case (Cons m ms)
  have "set (get_xref_from (androguard_dx u) m)
          = {x. (x, m) \<in> set (method_xrefs (androguard_dx u))}"
    by (force simp add: get_xref_from_def)
  then show ?case by (auto simp add: Cons.IH set_calls_to_xrefs)
qed

lemma fn_get_methods_same:
  assumes "same_application u1 u2"
  shows "set (fn_get_methods u1 c m d) = set (fn_get_methods u2 c m d)"
  using assms
  by (simp add: fn_get_methods_def find_methods_def same_application_def same_index_def Let_def)

lemma fn_get_calls_to_method_same:
  assumes "same_application u1 u2"
  shows "set (fn_get_calls_to_method u1 c m d) = set (fn_get_calls_to_method u2 c m d)"
  using assms fn_get_methods_same [OF assms, of c m d]
  by (simp add: fn_get_calls_to_method_def set_calls_to_methods same_application_def
                same_index_def)

lemma fn_get_calls_to_class_same:
  assumes "valid_set_orders u1" and "valid_set_orders u2" and "same_application u1 u2"
  shows "set (fn_get_calls_to_class u1 c) = set (fn_get_calls_to_class u2 c)"
proof -
  have callers: "set (class_get_xref_from (androguard_dx u1) k)
                   = set (class_get_xref_from (androguard_dx u2) k)" for k
    using assms(3) by (simp add: class_get_xref_from_def same_application_def same_index_def)
  have found: "set (fn_get_classes u1 c) = set (fn_get_classes u2 c)"
    using assms(3)
    by (simp add: fn_get_classes_def find_classes_def same_application_def same_index_def)
  have keep: "keep_user_interaction u1 = keep_user_interaction u2"
    using assms(3) by (simp add: same_application_def)
  show ?thesis
    by (simp add: fn_get_calls_to_class_def same_set assms(1,2) drop_interactive_def
                  callers found keep split_beta)
qed

text \<open>The location filter, in terms of the set of methods it is given.\<close>

lemma location_values_loop_Inr:
  "location_values_loop m vs t ex acc = Inr out
   \<Longrightarrow> set out = set acc
         \<union> (if \<exists>v \<in> set vs. fn_check_callers_against_expectation m v t ex = Inr True
            then {m} else {})"
  by (induction vs arbitrary: acc) (auto split: sum.splits if_splits)

lemma location_values_loop_Inl:
  "(\<exists>e. location_values_loop m vs t ex acc = Inl e)
   \<longleftrightarrow> (\<exists>v \<in> set vs. \<exists>e. fn_check_callers_against_expectation m v t ex = Inl e)"
  by (induction vs arbitrary: acc) (auto split: sum.splits)

lemma location_methods_loop_Inr:
  "location_methods_loop ms vs t ex acc = Inr out
   \<Longrightarrow> set out = set acc
         \<union> {m \<in> set ms. \<exists>v \<in> set vs. fn_check_callers_against_expectation m v t ex = Inr True}"
proof (induction ms arbitrary: acc)
  case Nil
  then show ?case by simp
next
  case (Cons m ms)
  from Cons.prems obtain mid where
    mid: "location_values_loop m vs t ex acc = Inr mid"
    and rest: "location_methods_loop ms vs t ex mid = Inr out"
    by (auto split: sum.splits)
  from Cons.IH [OF rest] location_values_loop_Inr [OF mid] show ?case by auto
qed

lemma location_methods_loop_Inl:
  "(\<exists>e. location_methods_loop ms vs t ex acc = Inl e)
   \<longleftrightarrow> (\<exists>m \<in> set ms. \<exists>v \<in> set vs. \<exists>e. fn_check_callers_against_expectation m v t ex = Inl e)"
proof (induction ms arbitrary: acc)
  case Nil
  show ?case by simp
next
  case (Cons m ms)
  show ?case
  proof (cases "location_values_loop m vs t ex acc")
    case (Inl e)
    with location_values_loop_Inl [of m vs t ex acc] show ?thesis by auto
  next
    case (Inr mid)
    with location_values_loop_Inl [of m vs t ex acc]
    have "\<not> (\<exists>v \<in> set vs. \<exists>e. fn_check_callers_against_expectation m v t ex = Inl e)"
      by auto
    with Cons.IH [of mid] Inr show ?thesis by auto
  qed
qed

lemma location_methods_loop_agree:
  assumes "set ms1 = set ms2"
  shows "agree (\<lambda>a b. set a = set b) (location_methods_loop ms1 vs t ex [])
           (location_methods_loop ms2 vs t ex [])"
proof (rule agreeI)
  fix e assume "location_methods_loop ms1 vs t ex [] = Inl e"
  with location_methods_loop_Inl [of ms1 vs t ex "[]"] location_methods_loop_Inl [of ms2 vs t ex "[]"]
       assms
  show "\<exists>e'. location_methods_loop ms2 vs t ex [] = Inl e'" by auto
next
  fix a assume a: "location_methods_loop ms1 vs t ex [] = Inr a"
  with location_methods_loop_Inl [of ms1 vs t ex "[]"] location_methods_loop_Inl [of ms2 vs t ex "[]"]
       assms
  obtain b where b: "location_methods_loop ms2 vs t ex [] = Inr b"
    by (cases "location_methods_loop ms2 vs t ex []") auto
  from location_methods_loop_Inr [OF a] location_methods_loop_Inr [OF b] assms
  have "set a = set b" by simp
  with b show "\<exists>b. location_methods_loop ms2 vs t ex [] = Inr b \<and> set a = set b" by simp
qed

lemma location_reqs_agree:
  assumes "set ms1 = set ms2"
  shows "agree (\<lambda>a b. set a = set b) (fn_get_methods_satisfying_location_reqs l ms1 loc)
           (fn_get_methods_satisfying_location_reqs l ms2 loc)"
proof -
  define ex where "ex = py_in ''NOT '' loc"
  define loc' where "loc' = (if ex then py_replace loc ''NOT '' [] else loc)"
  define t where "t = (if py_in '':'' loc' then py_split loc' '':'' ! 0 else ''<class>'')"
  define lv where "lv = (if py_in '':'' loc' then py_split loc' '':'' ! 1 else loc')"
  have shape: "fn_get_methods_satisfying_location_reqs l ms loc
          = (case lv of [] \<Rightarrow> Inl IndexError
             | c # x \<Rightarrow> location_methods_loop ms
                 (if c = CHR ''@'' then fn_get_linked_items l lv else [lv]) t ex [])" for ms
    unfolding fn_get_methods_satisfying_location_reqs_def Let_def lv_def t_def loc'_def ex_def
    by (rule refl)
  show ?thesis
  proof (cases lv)
    case Nil
    then show ?thesis unfolding shape by simp
  next
    case (Cons c x)
    show ?thesis unfolding shape Cons list.case
      by (rule location_methods_loop_agree [OF assms])
  qed
qed

text \<open>Return bindings: what is appended depends on the candidates only.\<close>

lemma returnable_item_append:
  "fn_process_returnable_item c t n rets = rets @ fn_process_returnable_item c t n []"
  by (simp add: fn_process_returnable_item_def split: prod.splits)

lemma fold_returnable_items:
  "fold (\<lambda>c. fn_process_returnable_item c t n) cs rets
     = rets @ concat (map (\<lambda>c. fn_process_returnable_item c t n []) cs)"
proof (induction cs arbitrary: rets)
  case Nil
  show ?case by simp
next
  case (Cons c cs)
  show ?case
    using returnable_item_append [of c t n rets] by (simp add: Cons.IH)
qed

lemma return_elements_loop_append:
  "return_elements_loop els cs rets
     = (case return_elements_loop els cs [] of
          Inl e \<Rightarrow> Inl e | Inr new \<Rightarrow> Inr (rets @ new))"
proof (induction els arbitrary: rets)
  case Nil
  show ?case by simp
next
  case (Cons el els)
  show ?case
  proof (cases el)
    case (JStr x)
    show ?thesis
    proof (cases "py_index (py_split x '' AS '') 1")
      case (Inl e)
      then show ?thesis by (simp add: JStr)
    next
      case (Inr n)
      let ?new = "concat (map (\<lambda>c. fn_process_returnable_item c
                      (hd (py_split x '' AS '')) n []) cs)"
      have "return_elements_loop (el # els) cs rets
              = return_elements_loop els cs (rets @ ?new)"
        using Inr by (simp add: JStr fold_returnable_items)
      moreover have "return_elements_loop (el # els) cs []
              = return_elements_loop els cs ?new"
        using Inr by (simp add: JStr fold_returnable_items)
      ultimately show ?thesis
        using Cons.IH [of "rets @ ?new"] Cons.IH [of ?new]
        by (simp split: sum.splits)
    qed
  qed (simp_all)
qed

lemma return_elements_loop_agree:
  assumes "set cs1 = set cs2"
  shows "set r1 = set r2
         \<Longrightarrow> agree (\<lambda>a b. set a = set b) (return_elements_loop els cs1 r1)
               (return_elements_loop els cs2 r2)"
proof (induction els arbitrary: r1 r2)
  case Nil
  then show ?case by simp
next
  case (Cons el els)
  show ?case
  proof (cases el)
    case (JStr x)
    show ?thesis
    proof (cases "py_index (py_split x '' AS '') 1")
      case (Inl e)
      then show ?thesis by (simp add: JStr)
    next
      case (Inr n)
      have "set (fold (\<lambda>c. fn_process_returnable_item c (hd (py_split x '' AS '')) n) cs1 r1)
            = set (fold (\<lambda>c. fn_process_returnable_item c (hd (py_split x '' AS '')) n) cs2 r2)"
        using assms Cons.prems by (simp add: fold_returnable_items)
      from Cons.IH [OF this] Inr show ?thesis by (simp add: JStr)
    qed
  qed (simp_all)
qed

lemma fn_analyse_returns_shape:
  "\<exists>r. \<forall>cs rets. fn_analyse_returns obj cs rets
         = (case r of Inl e \<Rightarrow> Inl e | Inr els \<Rightarrow> return_elements_loop els cs rets)"
proof -
  define r where "r =
    (case map_of obj ''RETURN'' of
       None \<Rightarrow> Inl KeyError
     | Some (JList xs) \<Rightarrow> Inr xs
     | Some j \<Rightarrow>
         (case str_in '','' j of
            Inl e \<Rightarrow> Inl e
          | Inr has_comma \<Rightarrow>
              if has_comma
              then (case split_of j '','' of
                      Inl e \<Rightarrow> Inl e | Inr parts \<Rightarrow> Inr (map JStr parts))
              else Inr [j]))"
  have "fn_analyse_returns obj cs rets
         = (case r of Inl e \<Rightarrow> Inl e | Inr els \<Rightarrow> return_elements_loop els cs rets)"
    for cs rets
    unfolding fn_analyse_returns_def r_def
    by (simp split: option.splits json.splits sum.splits)
  then show ?thesis by blast
qed

lemma fn_analyse_returns_append:
  "fn_analyse_returns obj cs rets
     = (case fn_analyse_returns obj cs [] of
          Inl e \<Rightarrow> Inl e | Inr new \<Rightarrow> Inr (rets @ new))"
proof -
  from fn_analyse_returns_shape [of obj] obtain r where
    shape: "\<And>cs rets. fn_analyse_returns obj cs rets
         = (case r of Inl e \<Rightarrow> Inl e | Inr els \<Rightarrow> return_elements_loop els cs rets)"
    by blast
  show ?thesis
  proof (cases r)
    case (Inl e)
    then show ?thesis by (simp add: shape)
  next
    case (Inr els)
    show ?thesis
      unfolding shape Inr sum.case by (rule return_elements_loop_append)
  qed
qed

lemma fn_analyse_returns_agree:
  assumes "set cs1 = set cs2" and "set r1 = set r2"
  shows "agree (\<lambda>a b. set a = set b) (fn_analyse_returns obj cs1 r1)
           (fn_analyse_returns obj cs2 r2)"
proof -
  from fn_analyse_returns_shape [of obj] obtain r where
    shape: "\<And>cs rets. fn_analyse_returns obj cs rets
         = (case r of Inl e \<Rightarrow> Inl e | Inr els \<Rightarrow> return_elements_loop els cs rets)"
    by blast
  show ?thesis
  proof (cases r)
    case (Inl e)
    then show ?thesis by (simp add: shape)
  next
    case (Inr els)
    show ?thesis
      unfolding shape Inr sum.case by (rule return_elements_loop_agree [OF assms])
  qed
qed

text \<open>The location filter followed by the return bindings.\<close>

lemma location_and_returns_shape:
  "fn_process_search_location_and_returns l obj ms rets
     = (case location_part l obj ms of
          Inl e \<Rightarrow> Inl e
        | Inr (b, cms) \<Rightarrow>
            if map_of obj ''RETURN'' = None then Inr (b, rets)
            else (case fn_analyse_returns obj cms rets of
                    Inl e \<Rightarrow> Inl e
                  | Inr rets' \<Rightarrow> Inr (b, rets')))"
  unfolding fn_process_search_location_and_returns_def location_part_def by (rule refl)

lemma location_and_returns_append:
  "fn_process_search_location_and_returns l obj ms rets
     = (case fn_process_search_location_and_returns l obj ms [] of
          Inl e \<Rightarrow> Inl e | Inr (b, new) \<Rightarrow> Inr (b, rets @ new))"
proof (cases "location_part l obj ms")
  case (Inl e)
  then show ?thesis by (simp add: location_and_returns_shape)
next
  case (Inr p)
  obtain b cms where p: "p = (b, cms)" by (cases p)
  show ?thesis
    using fn_analyse_returns_append [of obj cms rets]
    by (simp add: location_and_returns_shape Inr p split: sum.splits)
qed

lemma location_part_agree:
  assumes "set ms1 = set ms2"
  shows "agree (\<lambda>a b. fst a = fst b \<and> set (snd a) = set (snd b))
           (location_part l obj ms1) (location_part l obj ms2)"
proof (cases "map_of obj ''SEARCHLOCATION''")
  case None
  then show ?thesis by (simp add: location_part_def assms)
next
  case (Some j)
  show ?thesis
  proof (cases j)
    case (JStr loc)
    show ?thesis
      using location_reqs_agree [OF assms, of l loc] assms
      by (cases "fn_get_methods_satisfying_location_reqs l ms1 loc";
          cases "fn_get_methods_satisfying_location_reqs l ms2 loc")
         (auto simp add: location_part_def Some JStr)
  qed (simp_all add: location_part_def Some)
qed

lemma location_and_returns_agree:
  assumes "set ms1 = set ms2" and "set r1 = set r2"
  shows "agree (\<lambda>a b. fst a = fst b \<and> set (snd a) = set (snd b))
           (fn_process_search_location_and_returns l obj ms1 r1)
           (fn_process_search_location_and_returns l obj ms2 r2)"
proof (cases "location_part l obj ms1")
  case (Inl e)
  with location_part_agree [OF assms(1), of l obj]
  obtain e' where "location_part l obj ms2 = Inl e'"
    by (cases "location_part l obj ms2") auto
  with Inl show ?thesis by (simp add: location_and_returns_shape)
next
  case (Inr p)
  with location_part_agree [OF assms(1), of l obj]
  obtain q where q: "location_part l obj ms2 = Inr q"
      and pq: "fst p = fst q" "set (snd p) = set (snd q)"
    by (cases "location_part l obj ms2") auto
  show ?thesis
    using fn_analyse_returns_agree [OF pq(2) assms(2), of obj] pq(1) assms(2)
    by (cases "fn_analyse_returns obj (snd p) r1"; cases "fn_analyse_returns obj (snd q) r2")
       (auto simp add: location_and_returns_shape Inr q split_beta)
qed

text \<open>The loop over the alternatives of a target.\<close>

lemma candidates_loop_Inl:
  "(\<exists>e. candidates_loop one cs b rets = Inl e) \<longleftrightarrow> (\<exists>c \<in> set cs. \<exists>e. one c = Inl e)"
  by (induction cs arbitrary: b rets) (auto split: sum.splits)

lemma candidates_loop_Inr:
  "candidates_loop one cs b rets = Inr (b', rets')
   \<Longrightarrow> (b' \<longleftrightarrow> b \<or> (\<exists>c \<in> set cs. \<exists>n. one c = Inr (True, n)))
       \<and> set rets' = set rets \<union> {x. \<exists>c \<in> set cs. \<exists>d n. one c = Inr (d, n) \<and> x \<in> set n}"
proof (induction cs arbitrary: b rets)
  case Nil
  then show ?case by simp
next
  case (Cons c cs)
  from Cons.prems obtain d n where one: "one c = Inr (d, n)"
      and rest: "candidates_loop one cs (d \<or> b) (rets @ n) = Inr (b', rets')"
    by (auto split: sum.splits)
  from Cons.IH [OF rest] one show ?case by auto
qed

lemma candidates_loop_agree:
  assumes cs: "set cs1 = set cs2"
      and one: "\<And>c. agree (\<lambda>a b. fst a = fst b \<and> set (snd a) = set (snd b)) (one1 c) (one2 c)"
      and rets: "set r1 = set r2"
  shows "agree (\<lambda>a b. fst a = fst b \<and> set (snd a) = set (snd b))
           (candidates_loop one1 cs1 b r1) (candidates_loop one2 cs2 b r2)"
proof -
  have inl: "(\<exists>e. one1 c = Inl e) \<longleftrightarrow> (\<exists>e. one2 c = Inl e)" for c
    using one [of c] by (cases "one1 c"; cases "one2 c") auto
  have inr: "(\<exists>n. one1 c = Inr (d, n) \<and> x \<in> set n) \<longleftrightarrow> (\<exists>n. one2 c = Inr (d, n) \<and> x \<in> set n)"
    for c d x
    using one [of c] by (cases "one1 c"; cases "one2 c") auto
  have tr: "(\<exists>n. one1 c = Inr (True, n)) \<longleftrightarrow> (\<exists>n. one2 c = Inr (True, n))" for c
    using one [of c] by (cases "one1 c"; cases "one2 c") auto
  show ?thesis
  proof (rule agreeI)
    fix e assume "candidates_loop one1 cs1 b r1 = Inl e"
    then have "\<exists>c \<in> set cs1. \<exists>e. one1 c = Inl e"
      using candidates_loop_Inl [of one1 cs1 b r1] by blast
    then have "\<exists>c \<in> set cs2. \<exists>e. one2 c = Inl e" using inl cs by blast
    then show "\<exists>e'. candidates_loop one2 cs2 b r2 = Inl e'"
      using candidates_loop_Inl [of one2 cs2 b r2] by blast
  next
    fix a assume a: "candidates_loop one1 cs1 b r1 = Inr a"
    have "\<not> (\<exists>e. candidates_loop one2 cs2 b r2 = Inl e)"
    proof
      assume "\<exists>e. candidates_loop one2 cs2 b r2 = Inl e"
      then have "\<exists>c \<in> set cs2. \<exists>e. one2 c = Inl e"
        using candidates_loop_Inl [of one2 cs2 b r2] by blast
      then have "\<exists>c \<in> set cs1. \<exists>e. one1 c = Inl e" using inl cs by blast
      then have "\<exists>e. candidates_loop one1 cs1 b r1 = Inl e"
        using candidates_loop_Inl [of one1 cs1 b r1] by blast
      with a show False by simp
    qed
    then obtain q where q: "candidates_loop one2 cs2 b r2 = Inr q"
      by (cases "candidates_loop one2 cs2 b r2") auto
    from candidates_loop_Inr [of one1 cs1 b r1 "fst a" "snd a"] a
    have a1: "fst a \<longleftrightarrow> b \<or> (\<exists>c \<in> set cs1. \<exists>n. one1 c = Inr (True, n))"
      and a2: "set (snd a) = set r1 \<union> {x. \<exists>c \<in> set cs1. \<exists>d n. one1 c = Inr (d, n) \<and> x \<in> set n}"
      by simp_all
    from candidates_loop_Inr [of one2 cs2 b r2 "fst q" "snd q"] q
    have q1: "fst q \<longleftrightarrow> b \<or> (\<exists>c \<in> set cs2. \<exists>n. one2 c = Inr (True, n))"
      and q2: "set (snd q) = set r2 \<union> {x. \<exists>c \<in> set cs2. \<exists>d n. one2 c = Inr (d, n) \<and> x \<in> set n}"
      by simp_all
    have "fst a = fst q" unfolding a1 q1 cs using tr by simp
    moreover have "set (snd a) = set (snd q)" unfolding a2 q2 cs rets using inr by simp
    ultimately show "\<exists>q. candidates_loop one2 cs2 b r2 = Inr q
                       \<and> fst a = fst q \<and> set (snd a) = set (snd q)"
      using q by simp
  qed
qed

text \<open>The two call-site loops are instances of it.\<close>

lemma calls_to_method_loop_candidates:
  "calls_to_method_loop u l obj cs b rets
     = candidates_loop (method_candidate u l obj) cs b rets"
proof (induction cs arbitrary: b rets)
  case Nil
  show ?case by simp
next
  case (Cons c cs)
  show ?case
  proof (cases "fn_get_class_method_desc_from_string c")
    case (Inl e)
    have "method_candidate u l obj c = Inl e"
      by (simp add: method_candidate_def Inl)
    then show ?thesis by (simp add: Inl)
  next
    case (Inr p)
    obtain cp mp dp where p: "p = (cp, mp, dp)" by (cases p)
    show ?thesis
    proof (cases "fn_find_subclasses u cp")
      case (Inl e)
      have "method_candidate u l obj c = Inl e"
        by (simp add: method_candidate_def Inr p Inl)
      then show ?thesis by (simp add: Inr p Inl)
    next
      case sub: (Inr subs)
      define cms where
        "cms = concat (map (\<lambda>cls. fn_get_calls_to_method u cls mp dp) (cp # subs))"
      have loop: "calls_to_method_loop u l obj (c # cs') b' rets'
          = (if length cms \<le> 0 then calls_to_method_loop u l obj cs' b' rets'
             else (case fn_process_search_location_and_returns l obj cms rets' of
                     Inl e \<Rightarrow> Inl e
                   | Inr (d, rets'') \<Rightarrow>
                       calls_to_method_loop u l obj cs' (d \<or> b') rets''))" for cs' b' rets'
        by (simp only: calls_to_method_loop.simps Inr p sub sum.case prod.case Let_def cms_def)
      show ?thesis
      proof (cases "cms = []")
        case True
        have "method_candidate u l obj c = Inr (False, [])"
          unfolding method_candidate_def loop by (simp add: True)
        then show ?thesis
          unfolding loop using Cons.IH [of b rets] by (simp add: True)
      next
        case False
        have one: "method_candidate u l obj c
                   = fn_process_search_location_and_returns l obj cms []"
          unfolding method_candidate_def loop by (simp add: False split: sum.splits)
        show ?thesis
          unfolding loop
          using location_and_returns_append [of l obj cms rets]
          by (simp add: False one Cons.IH split: sum.splits)
      qed
    qed
  qed
qed

lemma calls_to_class_loop_candidates:
  "calls_to_class_loop u l obj cs b rets
     = candidates_loop (class_candidate u l obj) cs b rets"
proof (induction cs arbitrary: b rets)
  case Nil
  show ?case by simp
next
  case (Cons c cs)
  show ?case
  proof (cases "fn_find_subclasses u c")
    case (Inl e)
    have "class_candidate u l obj c = Inl e"
      by (simp add: class_candidate_def Inl)
    then show ?thesis by (simp add: Inl)
  next
    case sub: (Inr subs)
    define cms where "cms = concat (map (\<lambda>cls. fn_get_calls_to_class u cls) (c # subs))"
    have loop: "calls_to_class_loop u l obj (c # cs') b' rets'
        = (if length cms = 0 then calls_to_class_loop u l obj cs' b' rets'
           else (case fn_process_search_location_and_returns l obj cms rets' of
                   Inl e \<Rightarrow> Inl e
                 | Inr (d, rets'') \<Rightarrow>
                     calls_to_class_loop u l obj cs' (d \<or> b') rets''))" for cs' b' rets'
      by (simp only: calls_to_class_loop.simps sub sum.case prod.case Let_def cms_def)
    show ?thesis
    proof (cases "cms = []")
      case True
      have "class_candidate u l obj c = Inr (False, [])"
        unfolding class_candidate_def loop by (simp add: True)
      then show ?thesis
        unfolding loop using Cons.IH [of b rets] by (simp add: True)
    next
      case False
      have one: "class_candidate u l obj c
                 = fn_process_search_location_and_returns l obj cms []"
        unfolding class_candidate_def loop by (simp add: False split: sum.splits)
      show ?thesis
        unfolding loop
        using location_and_returns_append [of l obj cms rets]
        by (simp add: False one Cons.IH split: sum.splits)
    qed
  qed
qed

text \<open>One alternative gives the same verdict and bindings in both runs.\<close>

lemma method_candidate_value:
  assumes "fn_get_class_method_desc_from_string c = Inr (cp, mp, dp)"
      and "fn_find_subclasses u cp = Inr subs"
      and "cms = concat (map (\<lambda>cls. fn_get_calls_to_method u cls mp dp) (cp # subs))"
  shows "method_candidate u l obj c
           = (if cms = [] then Inr (False, [])
              else fn_process_search_location_and_returns l obj cms [])"
proof -
  have "method_candidate u l obj c
          = (if length cms \<le> 0 then calls_to_method_loop u l obj [] False []
             else (case fn_process_search_location_and_returns l obj cms [] of
                     Inl e \<Rightarrow> Inl e
                   | Inr (d, rets'') \<Rightarrow>
                       calls_to_method_loop u l obj [] (d \<or> False) rets''))"
    by (simp only: method_candidate_def calls_to_method_loop.simps(2) assms sum.case prod.case
                   Let_def)
  then show ?thesis
    by (cases "fn_process_search_location_and_returns l obj cms []") auto
qed

lemma class_candidate_value:
  assumes "fn_find_subclasses u c = Inr subs"
      and "cms = concat (map (\<lambda>cls. fn_get_calls_to_class u cls) (c # subs))"
  shows "class_candidate u l obj c
           = (if cms = [] then Inr (False, [])
              else fn_process_search_location_and_returns l obj cms [])"
proof -
  have "class_candidate u l obj c
          = (if length cms = 0 then calls_to_class_loop u l obj [] False []
             else (case fn_process_search_location_and_returns l obj cms [] of
                     Inl e \<Rightarrow> Inl e
                   | Inr (d, rets'') \<Rightarrow>
                       calls_to_class_loop u l obj [] (d \<or> False) rets''))"
    by (simp only: class_candidate_def calls_to_class_loop.simps(2) assms sum.case prod.case
                   Let_def)
  then show ?thesis
    by (cases "fn_process_search_location_and_returns l obj cms []") auto
qed

lemma method_candidate_agree:
  assumes "valid_set_orders u1" and "valid_set_orders u2" and "same_application u1 u2"
  shows "agree (\<lambda>a b. fst a = fst b \<and> set (snd a) = set (snd b))
           (method_candidate u1 l obj c) (method_candidate u2 l obj c)"
proof (cases "fn_get_class_method_desc_from_string c")
  case (Inl e)
  then show ?thesis by (simp add: method_candidate_def)
next
  case (Inr p)
  obtain cp mp dp where p: "fn_get_class_method_desc_from_string c = Inr (cp, mp, dp)"
    using Inr by (cases p) simp
  show ?thesis
  proof (cases "fn_find_subclasses u1 cp")
    case (Inl e)
    with fn_find_subclasses_agree [OF assms, of cp]
    obtain e' where "fn_find_subclasses u2 cp = Inl e'"
      by (cases "fn_find_subclasses u2 cp") auto
    with Inl show ?thesis by (simp add: method_candidate_def p)
  next
    case s1: (Inr subs1)
    with fn_find_subclasses_agree [OF assms, of cp]
    obtain subs2 where s2: "fn_find_subclasses u2 cp = Inr subs2"
        and subs: "set subs1 = set subs2"
      by (cases "fn_find_subclasses u2 cp") auto
    define cms1 where
      "cms1 = concat (map (\<lambda>cls. fn_get_calls_to_method u1 cls mp dp) (cp # subs1))"
    define cms2 where
      "cms2 = concat (map (\<lambda>cls. fn_get_calls_to_method u2 cls mp dp) (cp # subs2))"
    have cms: "set cms1 = set cms2"
      unfolding cms1_def cms2_def
      by (simp add: fn_get_calls_to_method_same [OF assms(3)] subs)
    then have empty: "cms1 = [] \<longleftrightarrow> cms2 = []"
      by (metis set_empty)
    show ?thesis
      unfolding method_candidate_value [OF p s1 cms1_def] method_candidate_value [OF p s2 cms2_def]
      using location_and_returns_agree [OF cms, of "[]" "[]" l obj] empty by simp
  qed
qed

lemma class_candidate_agree:
  assumes "valid_set_orders u1" and "valid_set_orders u2" and "same_application u1 u2"
  shows "agree (\<lambda>a b. fst a = fst b \<and> set (snd a) = set (snd b))
           (class_candidate u1 l obj c) (class_candidate u2 l obj c)"
proof (cases "fn_find_subclasses u1 c")
  case (Inl e)
  with fn_find_subclasses_agree [OF assms, of c]
  obtain e' where "fn_find_subclasses u2 c = Inl e'"
    by (cases "fn_find_subclasses u2 c") auto
  with Inl show ?thesis by (simp add: class_candidate_def)
next
  case s1: (Inr subs1)
  with fn_find_subclasses_agree [OF assms, of c]
  obtain subs2 where s2: "fn_find_subclasses u2 c = Inr subs2"
      and subs: "set subs1 = set subs2"
    by (cases "fn_find_subclasses u2 c") auto
  define cms1 where "cms1 = concat (map (\<lambda>cls. fn_get_calls_to_class u1 cls) (c # subs1))"
  define cms2 where "cms2 = concat (map (\<lambda>cls. fn_get_calls_to_class u2 cls) (c # subs2))"
  have cms: "set cms1 = set cms2"
    unfolding cms1_def cms2_def
    by (simp add: fn_get_calls_to_class_same [OF assms] subs)
  then have empty: "cms1 = [] \<longleftrightarrow> cms2 = []"
    by (metis set_empty)
  show ?thesis
    unfolding class_candidate_value [OF s1 cms1_def] class_candidate_value [OF s2 cms2_def]
    using location_and_returns_agree [OF cms, of "[]" "[]" l obj] empty by simp
qed

lemma calls_to_method_agree:
  assumes "valid_set_orders u1" and "valid_set_orders u2" and "same_application u1 u2"
      and "set cs1 = set cs2" and "set r1 = set r2"
  shows "agree (\<lambda>a b. fst a = fst b \<and> set (snd a) = set (snd b))
           (fn_search_for_calls_to_method u1 l obj cs1 r1)
           (fn_search_for_calls_to_method u2 l obj cs2 r2)"
  unfolding fn_search_for_calls_to_method_def calls_to_method_loop_candidates
  by (rule candidates_loop_agree [OF assms(4) method_candidate_agree [OF assms(1-3)] assms(5)])

lemma calls_to_class_agree:
  assumes "valid_set_orders u1" and "valid_set_orders u2" and "same_application u1 u2"
      and "set cs1 = set cs2" and "set r1 = set r2"
  shows "agree (\<lambda>a b. fst a = fst b \<and> set (snd a) = set (snd b))
           (fn_search_for_calls_to_class u1 l obj cs1 r1)
           (fn_search_for_calls_to_class u2 l obj cs2 r2)"
  unfolding fn_search_for_calls_to_class_def calls_to_class_loop_candidates
  by (rule candidates_loop_agree [OF assms(4) class_candidate_agree [OF assms(1-3)] assms(5)])

text \<open>The link table, in terms of the set of bindings it is given.\<close>

lemma link_step_Inl: "(\<exists>e. link_step k v l = Inl e) \<longleftrightarrow> k = []"
  by (cases k) (auto simp add: link_step_def split: option.splits)

lemma link_step_items:
  "link_step k v l = Inr l'
   \<Longrightarrow> set (fn_get_linked_items l' k')
       = set (fn_get_linked_items l k') \<union> (if k' = k \<and> hd k = CHR ''@'' then {v} else {})"
  by (cases k)
     (auto simp add: link_step_def fn_get_linked_items_def split: option.splits if_splits)

lemma convert_object_error:
  "fst (convert_object kvs l) = None \<longleftrightarrow> (\<forall>kv \<in> set kvs. fst kv \<noteq> [])"
proof (induction kvs arbitrary: l)
  case Nil
  show ?case by simp
next
  case (Cons kv kvs)
  obtain k v where kv: "kv = (k, v)" by (cases kv)
  show ?case
  proof (cases "link_step k v l")
    case (Inl e)
    with link_step_Inl [of k v l] show ?thesis by (auto simp add: kv)
  next
    case (Inr l')
    with link_step_Inl [of k v l] have "k \<noteq> []" by auto
    with Inr Cons.IH [of l'] show ?thesis by (simp add: kv)
  qed
qed

lemma convert_object_items:
  "convert_object kvs l = (None, l')
   \<Longrightarrow> set (fn_get_linked_items l' k')
       = set (fn_get_linked_items l k') \<union> {v. (k', v) \<in> set kvs \<and> hd k' = CHR ''@''}"
proof (induction kvs arbitrary: l)
  case Nil
  then show ?case by simp
next
  case (Cons kv kvs)
  obtain k v where kv: "kv = (k, v)" by (cases kv)
  from Cons.prems obtain l1 where step: "link_step k v l = Inr l1"
      and rest: "convert_object kvs l1 = (None, l')"
    by (auto simp add: kv split: sum.splits)
  from Cons.IH [OF rest] link_step_items [OF step, of k'] show ?case
    by (auto simp add: kv)
qed

lemma convert_returns_error:
  "fst (fn_convert_returns_to_links rs l) = None
   \<longleftrightarrow> (\<forall>r \<in> set rs. \<forall>kv \<in> set r. fst kv \<noteq> [])"
proof (induction rs arbitrary: l)
  case Nil
  show ?case by simp
next
  case (Cons r rs)
  obtain eo l1 where c: "convert_object r l = (eo, l1)" by (cases "convert_object r l")
  show ?case
  proof (cases eo)
    case None
    with c convert_object_error [of r l] Cons.IH [of l1] show ?thesis by simp
  next
    case (Some e)
    with c convert_object_error [of r l] show ?thesis by auto
  qed
qed

lemma convert_returns_items:
  "fn_convert_returns_to_links rs l = (None, l')
   \<Longrightarrow> set (fn_get_linked_items l' k')
       = set (fn_get_linked_items l k')
         \<union> {v. \<exists>r \<in> set rs. (k', v) \<in> set r \<and> hd k' = CHR ''@''}"
proof (induction rs arbitrary: l)
  case Nil
  then show ?case by simp
next
  case (Cons r rs)
  from Cons.prems obtain l1 where c: "convert_object r l = (None, l1)"
      and rest: "fn_convert_returns_to_links rs l1 = (None, l')"
    by (auto split: prod.splits option.splits)
  from Cons.IH [OF rest] convert_object_items [OF c, of k'] show ?case by auto
qed

lemma convert_returns_agree:
  assumes "set r1 = set r2"
  shows "agree same_contents
           (case fn_convert_returns_to_links r1 l of
              (Some e, l') \<Rightarrow> Inl e | (None, l') \<Rightarrow> Inr (True, l'))
           (case fn_convert_returns_to_links r2 l of
              (Some e, l') \<Rightarrow> Inl e | (None, l') \<Rightarrow> Inr (True, l'))"
proof -
  obtain e1 l1 where c1: "fn_convert_returns_to_links r1 l = (e1, l1)"
    by (cases "fn_convert_returns_to_links r1 l")
  obtain e2 l2 where c2: "fn_convert_returns_to_links r2 l = (e2, l2)"
    by (cases "fn_convert_returns_to_links r2 l")
  from convert_returns_error [of r1 l] convert_returns_error [of r2 l] assms c1 c2
  have same: "e1 = None \<longleftrightarrow> e2 = None" by simp
  show ?thesis
  proof (cases e1)
    case None
    with same have e2: "e2 = None" by simp
    have "set (fn_get_linked_items l1 k) = set (fn_get_linked_items l2 k)" for k
      using convert_returns_items [of r1 l l1 k] convert_returns_items [of r2 l l2 k]
            c1 c2 None e2 assms
      by simp
    then show ?thesis by (simp add: c1 c2 None e2 same_contents_def)
  next
    case (Some e)
    with same obtain e' where "e2 = Some e'" by (cases e2) auto
    with Some show ?thesis by (simp add: c1 c2)
  qed
qed

text \<open>The alternatives of a target, as a set.\<close>

lemma linked_items_agree:
  assumes "valid_set_orders u1" and "valid_set_orders u2"
  shows "agree (\<lambda>a b. set a = set b) (CodeSearch_fn_get_linked_items u1 l s scm)
           (CodeSearch_fn_get_linked_items u2 l s scm)"
proof (cases "py_in '']'' s")
  case False
  then show ?thesis
    by (simp add: CodeSearch_fn_get_linked_items_def same_set assms)
next
  case True
  show ?thesis
  proof (cases "py_index (py_split (py_split s '']'' ! 0) ''['') 1")
    case (Inl e)
    with True show ?thesis
      by (simp add: CodeSearch_fn_get_linked_items_def Let_def)
  next
    case (Inr sub)
    with True show ?thesis
      by (simp add: CodeSearch_fn_get_linked_items_def Let_def same_set assms)
  qed
qed

lemma fold_unlisted:
  "set (fold (\<lambda>x acc. if x \<in> set acc then acc else acc @ [x]) xs acc) = set acc \<union> set xs"
  by (induction xs arbitrary: acc) auto

lemma identify_items_agree:
  assumes "valid_set_orders u1" and "valid_set_orders u2"
  shows "set acc1 = set acc2
         \<Longrightarrow> agree (\<lambda>a b. set a = set b) (identify_items u1 l scm alts acc1)
               (identify_items u2 l scm alts acc2)"
proof (induction alts arbitrary: acc1 acc2)
  case Nil
  then show ?case by simp
next
  case (Cons a alts)
  show ?case
  proof (cases a)
    case Nil
    then show ?thesis by simp
  next
    case (Cons c cs)
    show ?thesis
    proof (cases "c = CHR ''@''")
      case False
      have "set (acc1 @ [a]) = set (acc2 @ [a])" using Cons.prems by simp
      from Cons.IH [OF this] False show ?thesis by (simp add: Cons)
    next
      case True
      show ?thesis
      proof (cases "CodeSearch_fn_get_linked_items u1 l a scm")
        case (Inl e)
        with linked_items_agree [OF assms, of l a scm]
        obtain e' where "CodeSearch_fn_get_linked_items u2 l a scm = Inl e'"
          by (cases "CodeSearch_fn_get_linked_items u2 l a scm") auto
        with Inl True show ?thesis using Cons by simp
      next
        case (Inr xs1)
        with linked_items_agree [OF assms, of l a scm]
        obtain xs2 where xs2: "CodeSearch_fn_get_linked_items u2 l a scm = Inr xs2"
            and xs: "set xs1 = set xs2"
          by (cases "CodeSearch_fn_get_linked_items u2 l a scm") auto
        have "set (fold (\<lambda>x acc. if x \<in> set acc then acc else acc @ [x]) xs1 acc1)
                = set (fold (\<lambda>x acc. if x \<in> set acc then acc else acc @ [x]) xs2 acc2)"
          using Cons.prems xs by (simp add: fold_unlisted)
        from Cons.IH [OF this] Inr xs2 True show ?thesis using Cons by simp
      qed
    qed
  qed
qed

lemma fn_identify_search_items_agree:
  assumes "valid_set_orders u1" and "valid_set_orders u2"
  shows "agree (\<lambda>a b. set a = set b) (fn_identify_search_items u1 l t input)
           (fn_identify_search_items u2 l t input)"
proof (cases "t = ''STRING''")
  case True
  then show ?thesis by (simp add: fn_identify_search_items_def Let_def)
next
  case False
  have "\<exists>scm alts. \<forall>u. fn_identify_search_items u l t input = identify_items u l scm alts []"
    using False unfolding fn_identify_search_items_def Let_def by (intro exI allI) simp
  then obtain scm alts where
    shape: "\<And>u. fn_identify_search_items u l t input = identify_items u l scm alts []"
    by blast
  show ?thesis
    unfolding shape by (rule identify_items_agree [OF assms]) simp
qed

text \<open>A call-site search for a string raises, like the existence searches.\<close>

lemma calls_to_string_raises:
  "xs \<noteq> [] \<Longrightarrow> \<exists>e. fn_search_for_calls_to_string u l d xs r = Inl e"
  by (cases xs)
     (simp_all add: fn_search_for_calls_to_string_def fn_get_calls_to_string_def
                    fn_get_strings_def)

lemma call_site_string_raises:
  "\<exists>e. call_site_search u l obj ''STRING'' fn_search_for_calls_to_string r = Inl e"
proof (cases "search_target obj ''STRING''")
  case (Inl e)
  then show ?thesis by (simp add: call_site_search_def)
next
  case (Inr di)
  obtain d input where di: "di = (d, input)" by (cases di)
  show ?thesis
  proof (cases "fn_identify_search_items u l ''STRING'' input")
    case (Inl e)
    with Inr di show ?thesis by (simp add: call_site_search_def)
  next
    case items: (Inr xs)
    from identify_string_items_not_Nil [OF items] calls_to_string_raises
    obtain e where "fn_search_for_calls_to_string u l d xs r = Inl e" by blast
    with Inr di items show ?thesis by (simp add: call_site_search_def)
  qed
qed

text \<open>One search of a rule object.\<close>

lemma call_site_search_agree:
  assumes "valid_set_orders u1" and "valid_set_orders u2"
      and run: "\<And>d cs1 cs2. set cs1 = set cs2
                 \<Longrightarrow> agree (\<lambda>a b. fst a = fst b \<and> set (snd a) = set (snd b))
                       (f u1 l d cs1 r1) (f u2 l d cs2 r2)"
  shows "agree (\<lambda>a b. fst a = fst b \<and> set (snd a) = set (snd b))
           (call_site_search u1 l obj key f r1) (call_site_search u2 l obj key f r2)"
proof (cases "search_target obj key")
  case (Inl e)
  then show ?thesis by (simp add: call_site_search_def)
next
  case (Inr di)
  obtain d input where di: "di = (d, input)" by (cases di)
  show ?thesis
  proof (cases "fn_identify_search_items u1 l key input")
    case (Inl e)
    with fn_identify_search_items_agree [OF assms(1,2), of l key input]
    obtain e' where "fn_identify_search_items u2 l key input = Inl e'"
      by (cases "fn_identify_search_items u2 l key input") auto
    with Inl Inr di show ?thesis by (simp add: call_site_search_def)
  next
    case i1: (Inr cs1)
    with fn_identify_search_items_agree [OF assms(1,2), of l key input]
    obtain cs2 where i2: "fn_identify_search_items u2 l key input = Inr cs2"
        and cs: "set cs1 = set cs2"
      by (cases "fn_identify_search_items u2 l key input") auto
    from run [OF cs, of d] show ?thesis
      by (simp add: call_site_search_def Inr di i1 i2)
  qed
qed

lemma fn_determine_search_type_agree:
  assumes "valid_set_orders u1" and "valid_set_orders u2" and "same_application u1 u2"
      and "set r1 = set r2"
  shows "agree (\<lambda>a b. fst a = fst b \<and> set (snd a) = set (snd b))
           (fn_determine_search_type u1 l t obj r1) (fn_determine_search_type u2 l t obj r2)"
proof -
  consider (str) "t = JStr ''SEARCHFORSTRING''"
    | (meth) "t = JStr ''SEARCHFORMETHOD''"
    | (cls) "t = JStr ''SEARCHFORCLASS''"
    | (cstr) "t = JStr ''SEARCHFORCALLTOSTRING''"
    | (cmeth) "t = JStr ''SEARCHFORCALLTOMETHOD''"
    | (ccls) "t = JStr ''SEARCHFORCALLTOCLASS''"
    | (other) "t \<noteq> JStr ''SEARCHFORSTRING''" "t \<noteq> JStr ''SEARCHFORMETHOD''"
              "t \<noteq> JStr ''SEARCHFORCLASS''" "t \<noteq> JStr ''SEARCHFORCALLTOSTRING''"
              "t \<noteq> JStr ''SEARCHFORCALLTOMETHOD''" "t \<noteq> JStr ''SEARCHFORCALLTOCLASS''"
    by blast
  then show ?thesis
  proof cases
    case str
    from existence_searches_raise [of u1 l obj r1] existence_searches_raise [of u2 l obj r2]
    show ?thesis unfolding str by (elim conjE exE) simp
  next
    case meth
    from existence_searches_raise [of u1 l obj r1] existence_searches_raise [of u2 l obj r2]
    show ?thesis unfolding meth by (elim conjE exE) simp
  next
    case cls
    from existence_searches_raise [of u1 l obj r1] existence_searches_raise [of u2 l obj r2]
    show ?thesis unfolding cls by (elim conjE exE) simp
  next
    case cstr
    from call_site_string_raises [of u1 l obj r1] call_site_string_raises [of u2 l obj r2]
    show ?thesis by (elim exE) (simp add: cstr fn_determine_search_type_def)
  next
    case cmeth
    have "agree (\<lambda>a b. fst a = fst b \<and> set (snd a) = set (snd b))
           (call_site_search u1 l obj ''METHOD'' fn_search_for_calls_to_method r1)
           (call_site_search u2 l obj ''METHOD'' fn_search_for_calls_to_method r2)"
      by (rule call_site_search_agree [OF assms(1,2)])
         (rule calls_to_method_agree [OF assms(1-3) _ assms(4)])
    then show ?thesis by (simp add: cmeth fn_determine_search_type_def)
  next
    case ccls
    have "agree (\<lambda>a b. fst a = fst b \<and> set (snd a) = set (snd b))
           (call_site_search u1 l obj ''CLASS'' fn_search_for_calls_to_class r1)
           (call_site_search u2 l obj ''CLASS'' fn_search_for_calls_to_class r2)"
      by (rule call_site_search_agree [OF assms(1,2)])
         (rule calls_to_class_agree [OF assms(1-3) _ assms(4)])
    then show ?thesis by (simp add: ccls fn_determine_search_type_def)
  next
    case other
    then show ?thesis by (simp add: fn_determine_search_type_def)
  qed
qed

text \<open>The searches of a rule object, and the rules of a SEARCH.\<close>

lemma search_items_loop_agree:
  assumes "valid_set_orders u1" and "valid_set_orders u2" and "same_application u1 u2"
  shows "set r1 = set r2
         \<Longrightarrow> agree (\<lambda>a b. fst a = fst b \<and> set (snd a) = set (snd b))
               (search_items_loop u1 l tpl items tot sat r1)
               (search_items_loop u2 l tpl items tot sat r2)"
proof (induction items arbitrary: tot sat r1 r2)
  case Nil
  then show ?case by simp
next
  case (Cons item items)
  show ?case
  proof (cases "py_getitem tpl item")
    case (Inl e)
    then show ?thesis by simp
  next
    case (Inr obj)
    show ?thesis
    proof (cases "fn_determine_search_type u1 l item obj r1")
      case (Inl e)
      with fn_determine_search_type_agree [OF assms Cons.prems, of l item obj]
      obtain e' where "fn_determine_search_type u2 l item obj r2 = Inl e'"
        by (cases "fn_determine_search_type u2 l item obj r2") auto
      with Inl Inr show ?thesis by simp
    next
      case d1: (Inr p)
      with fn_determine_search_type_agree [OF assms Cons.prems, of l item obj]
      obtain q where d2: "fn_determine_search_type u2 l item obj r2 = Inr q"
          and pq: "fst p = fst q" "set (snd p) = set (snd q)"
        by (cases "fn_determine_search_type u2 l item obj r2") auto
      from Cons.IH [OF pq(2)] pq(1) show ?thesis
        by (simp add: Inr d1 d2 split_beta)
    qed
  qed
qed

lemma individual_search_item_agree:
  assumes "valid_set_orders u1" and "valid_set_orders u2" and "same_application u1 u2"
      and "set r1 = set r2"
  shows "agree (\<lambda>a b. fst a = fst b \<and> set (snd a) = set (snd b))
           (fn_process_individual_search_item u1 l tpl d r1)
           (fn_process_individual_search_item u2 l tpl d r2)"
proof (cases "py_iter tpl")
  case (Inl e)
  then show ?thesis by (simp add: fn_process_individual_search_item_def)
next
  case (Inr items)
  from search_items_loop_agree [OF assms, of l tpl items 0 0] show ?thesis
    by (simp add: fn_process_individual_search_item_def Inr)
qed

text \<open>
  C8, what depends on the order. Each application is analysed by two runs that
  list a set in opposite orders: the subclasses of \<open>La;\<close> for the code search
  and the Reverse trace, the methods that \<open>Lf;->f()V\<close> calls for the Forward
  trace. The code search is satisfied in both runs and binds the same two
  classes under \<open>@x\<close>, but not in the same order. The traces do not bind the
  same chains: of \<open>Lx;->m()V\<close> and \<open>Lt;->m()V\<close>, the one that is visited first is
  marked as checked, so the run that starts with \<open>Lx;->m()V\<close> reaches the
  target through it, and the run that starts with the target reaches it
  directly and then finds it checked.
\<close>

theorem evaluation_depends_on_set_order:
  "outcome [''@x''] (fn_perform_code_search first_run rule_calls_a_m Map.empty)
     = Inr (True, [[''Lp;'', ''Lq;'']])
   \<and> outcome [''@x''] (fn_perform_code_search second_run rule_calls_a_m Map.empty)
       = Inr (True, [[''Lq;'', ''Lp;'']])
   \<and> outcome [''@tracepath_x'']
         (fn_perform_code_trace recursion_limit override_first_run 25 no_adv_trace
            trace_a_to_t Map.empty)
       = Inr (True, [[''|MAYBE|Lx;->m()V,La;->a()V'',
                      ''Lt;->m()V,|MAYBE|Lx;->m()V,La;->a()V'']])
   \<and> outcome [''@tracepath_x'']
         (fn_perform_code_trace recursion_limit override_second_run 25 no_adv_trace
            trace_a_to_t Map.empty)
       = Inr (True, [[''Lt;->m()V,La;->a()V'', ''|MAYBE|Lx;->m()V,La;->a()V'']])
   \<and> outcome [''@tracepath_x'']
         (fn_perform_code_trace recursion_limit fork_first_run 25 no_adv_trace
            trace_f_to_t_forward Map.empty)
       = Inr (True, [[''Lf;->f()V,|MAYBE|Lx;->m()V'',
                      ''Lf;->f()V,|MAYBE|Lx;->m()V,Lt;->m()V'']])
   \<and> outcome [''@tracepath_x'']
         (fn_perform_code_trace recursion_limit fork_second_run 25 no_adv_trace
            trace_f_to_t_forward Map.empty)
       = Inr (True, [[''Lf;->f()V,Lt;->m()V'', ''Lf;->f()V,|MAYBE|Lx;->m()V'']])"
  by code_simp

text \<open>
  C8, what does not. Two code searches with the same template, from the same
  link table, on the same application under the same configuration, whose runs
  list Python's sets and the tables of the index in any two orders, either both
  raise, or return the same verdict and link tables that hold, under every
  identifier, the same set of values.
\<close>

theorem search_contents_independent_of_set_order:
  assumes "valid_set_orders u1" and "valid_set_orders u2" and "same_application u1 u2"
  shows "agree same_contents (fn_perform_code_search u1 t l) (fn_perform_code_search u2 t l)"
proof -
  define body where "body = (\<lambda>u. case t of
              JDict d \<Rightarrow> fn_process_individual_search_item u l t t []
            | JList search_items \<Rightarrow> search_list_loop u l t search_items 0 0 []
            | _ \<Rightarrow> Inr (False, []))"
  have shape: "fn_perform_code_search u t l
     = (case body u of
        Inl e \<Rightarrow> Inl e
      | Inr (bool_satisfied, current_returns) \<Rightarrow>
          if bool_satisfied
          then (case fn_convert_returns_to_links current_returns l of
                  (Some e, l') \<Rightarrow> Inl e
                | (None, l') \<Rightarrow> Inr (bool_satisfied, l'))
          else Inr (bool_satisfied, l))" for u
    unfolding fn_perform_code_search_def body_def by (rule refl)
  have body: "agree (\<lambda>a b. fst a = fst b \<and> set (snd a) = set (snd b)) (body u1) (body u2)"
  proof (cases t)
    case (JDict d)
    from individual_search_item_agree [OF assms, of "[]" "[]" l t t] show ?thesis
      by (simp add: body_def JDict)
  next
    case (JList xs)
    show ?thesis
    proof (cases xs)
      case Nil
      then show ?thesis by (simp add: body_def JList)
    next
      case (Cons x xs')
      from search_list_loop_raises [of u1 l x xs'] search_list_loop_raises [of u2 l x xs']
      show ?thesis
        unfolding body_def JList Cons json.case by (elim exE) simp
    qed
  qed (simp_all add: body_def)
  show ?thesis
  proof (cases "body u1")
    case (Inl e)
    with body obtain e' where "body u2 = Inl e'" by (cases "body u2") auto
    with Inl show ?thesis by (simp add: shape)
  next
    case b1: (Inr p)
    with body obtain q where b2: "body u2 = Inr q"
        and pq: "fst p = fst q" "set (snd p) = set (snd q)"
      by (cases "body u2") auto
    show ?thesis
    proof (cases "fst p")
      case False
      with pq(1) show ?thesis
        by (simp add: shape b1 b2 split_beta same_contents_def)
    next
      case True
      with pq(1) have p: "p = (True, snd p)" and q: "q = (True, snd q)"
        by (simp_all add: prod_eq_iff)
      have "fn_perform_code_search u1 t l
              = (case fn_convert_returns_to_links (snd p) l of
                   (Some e, l') \<Rightarrow> Inl e | (None, l') \<Rightarrow> Inr (True, l'))"
        unfolding shape b1 by (subst p) simp
      moreover have "fn_perform_code_search u2 t l
              = (case fn_convert_returns_to_links (snd q) l of
                   (Some e, l') \<Rightarrow> Inl e | (None, l') \<Rightarrow> Inr (True, l'))"
        unfolding shape b2 by (subst q) simp
      ultimately show ?thesis
        using convert_returns_agree [OF pq(2), of l] by simp
    qed
  qed
qed

theorem search_contents_independent_of_set_order_witness:
  "valid_set_orders first_run \<and> valid_set_orders third_run
   \<and> same_application first_run third_run
   \<and> agree same_contents (fn_perform_code_search first_run rule_calls_a_m Map.empty)
         (fn_perform_code_search third_run rule_calls_a_m Map.empty)"
proof -
  have v1: "valid_set_orders first_run"
    by (simp add: valid_set_orders_def first_run_def AnalysisUtils_def)
  have v3: "valid_set_orders third_run"
    by (simp add: valid_set_orders_def third_run_def AnalysisUtils_def)
  have sa: "same_application first_run third_run"
    by (simp add: same_application_def same_index_def first_run_def third_run_def
                  AnalysisUtils_def reversed_index_def)
  from search_contents_independent_of_set_order [OF v1 v3 sa, of rule_calls_a_m Map.empty]
       v1 v3 sa
  show ?thesis by (intro conjI)
qed

section \<open>Properties of the Basic trace engine\<close>

text \<open>
  C1. On the call graph \<open>C calls B\<close>, \<open>B calls A\<close>, the Reverse trace from \<open>A\<close> to
  \<open>C\<close> is satisfied and binds the chain \<open>C,A\<close>: the chain is reversed before
  binding, but the intermediate caller \<open>B\<close> is not on it.
\<close>

theorem reverse_trace_drops_intermediate_hop:
  "outcome [''@tracepath_x'']
     (fn_perform_code_trace recursion_limit chain_utils 25 no_adv_trace trace_a_to_c Map.empty)
   = Inr (True, [[''Lc;->c()V,La;->a()V'']])"
  by code_simp


lemma calls_to_xrefs_subset:
  "set (calls_to_xrefs u xs acc) \<subseteq> set xs \<union> set acc"
proof (induction xs arbitrary: acc)
  case Nil
  show ?case by simp
next
  case (Cons x xs)
  from Cons.IH [of acc] Cons.IH [of "acc @ [x]"] show ?case by auto
qed

lemma calls_to_methods_subset:
  "set (calls_to_methods u ms acc) \<subseteq> fst ` set (method_xrefs (androguard_dx u)) \<union> set acc"
proof (induction ms arbitrary: acc)
  case Nil
  show ?case by simp
next
  case (Cons m ms)
  have "set (get_xref_from (androguard_dx u) m) \<subseteq> fst ` set (method_xrefs (androguard_dx u))"
    by (auto simp: get_xref_from_def)
  with calls_to_xrefs_subset [of u "get_xref_from (androguard_dx u) m" acc]
  have "set (calls_to_xrefs u (get_xref_from (androguard_dx u) m) acc)
          \<subseteq> fst ` set (method_xrefs (androguard_dx u)) \<union> set acc"
    by blast
  with Cons.IH [of "calls_to_xrefs u (get_xref_from (androguard_dx u) m) acc"]
  show ?case by auto
qed

lemma fn_get_calls_to_method_subset:
  "set (fn_get_calls_to_method u c m d) \<subseteq> fst ` set (method_xrefs (androguard_dx u))"
  using calls_to_methods_subset [of u _ "[]"] by (simp add: fn_get_calls_to_method_def)

lemma starting_point_reverse_universe:
  "sp \<in> fst ` set (method_xrefs (androguard_dx u))
   \<Longrightarrow> set (starting_point_reverse u sp) \<subseteq> set (trace_universe u)"
  by (auto simp: trace_universe_def)

lemma reverse_trace_points_universe:
  assumes "reverse_trace_points u point = Inr points"
  shows "set points \<subseteq> set (trace_universe u)"
proof -
  obtain c m d where point: "point = (c, m, d)" by (cases point)
  from assms point obtain subs where
    points: "points = concat (map (starting_point_reverse u)
               (fn_get_calls_to_method u c m d
                @ concat (map (\<lambda>subclass. fn_get_calls_to_method u subclass m d) subs)))"
    by (auto simp: reverse_trace_points_def Let_def split: sum.splits)
  have callers: "set (fn_get_calls_to_method u c m d
             @ concat (map (\<lambda>subclass. fn_get_calls_to_method u subclass m d) subs))
          \<subseteq> fst ` set (method_xrefs (androguard_dx u))"
    by (auto dest: subsetD [OF fn_get_calls_to_method_subset])
  show ?thesis
  proof
    fix x assume "x \<in> set points"
    then obtain sp where
      sp: "sp \<in> set (fn_get_calls_to_method u c m d
             @ concat (map (\<lambda>subclass. fn_get_calls_to_method u subclass m d) subs))"
      and x: "x \<in> set (starting_point_reverse u sp)"
      unfolding points by auto
    from sp callers have "sp \<in> fst ` set (method_xrefs (androguard_dx u))" by blast
    from starting_point_reverse_universe [OF this] x show "x \<in> set (trace_universe u)"
      by blast
  qed
qed

lemma forward_trace_points_universe:
  assumes "\<forall>xs. set (method_set_order u xs) \<subseteq> set xs"
      and "forward_trace_points u point = Inr points"
  shows "set points \<subseteq> set (trace_universe u)"
proof -
  obtain c m d where point: "point = (c, m, d)" by (cases point)
  have "set (fn_get_calls_from_method u c m d) \<subseteq> snd ` set (method_xrefs (androguard_dx u))"
  proof -
    have "set (fn_get_calls_from_method u c m d)
            \<subseteq> set (concat (map (\<lambda>method_obj.
                  drop_interactive u (get_xref_to (androguard_dx u) method_obj))
                  (fn_get_methods u c m (py_replace d ''['' [CHR 0x5C, CHR ''['']))))"
      unfolding fn_get_calls_from_method_def Let_def by (rule assms(1) [rule_format])
    also have "\<dots> \<subseteq> snd ` set (method_xrefs (androguard_dx u))"
      by (auto simp: drop_interactive_def get_xref_to_def)
    finally show ?thesis .
  qed
  moreover from assms(2) point
  have "points = map (\<lambda>sp. Inr (starting_point_forward sp)) (fn_get_calls_from_method u c m d)"
    by (auto simp: forward_trace_points_def)
  ultimately have "set points \<subseteq> (\<lambda>sp. Inr (starting_point_forward sp))
                      ` snd ` set (method_xrefs (androguard_dx u))"
    by auto
  also have "\<dots> \<subseteq> set (trace_universe u)"
    by (auto simp: trace_universe_def)
  finally show ?thesis .
qed

lemma next_trace_points_universe:
  assumes "trace_direction p = TRACE_FORWARD \<longrightarrow> (\<forall>xs. set (method_set_order u xs) \<subseteq> set xs)"
      and "next_trace_points u p point = Inr points"
  shows "set points \<subseteq> set (trace_universe u)"
  using assms reverse_trace_points_universe forward_trace_points_universe
  by (auto simp: next_trace_points_def split: if_splits)

lemma find_subclasses_error:
  "find_subclasses_depth n u c = Inl e \<Longrightarrow> e = RecursionError ''fn_find_subclasses''"
  "find_subclasses_loop n u c xs acc = Inl e \<Longrightarrow> e = RecursionError ''fn_find_subclasses''"
  by (induction n u c and n u c xs acc rule: find_subclasses_depth_find_subclasses_loop.induct)
     (auto split: sum.splits if_splits)

lemma find_superclasses_error:
  "find_superclasses_depth n u c = Inl e \<Longrightarrow> e = RecursionError ''fn_find_superclasses''"
  "find_superclasses_loop n u xs acc = Inl e \<Longrightarrow> e = RecursionError ''fn_find_superclasses''"
  by (induction n u c and n u xs acc rule: find_superclasses_depth_find_superclasses_loop.induct)
     (auto split: sum.splits if_splits)

lemma descriptor_points_error:
  "Inl e \<in> set (descriptor_points c mds) \<Longrightarrow> e = IndexError"
  by (auto simp: descriptor_points_def py_index_def split: sum.splits if_splits)

lemma starting_point_reverse_error:
  assumes "Inl e \<in> set (starting_point_reverse u sp)"
  shows "e \<noteq> RecursionError ''fn_analyse_trace_point''"
proof -
  have "e \<in> {RecursionError ''fn_find_subclasses'', RecursionError ''fn_find_superclasses'',
             KeyError, TypeError, IndexError}"
    using assms
    by (auto simp: starting_point_reverse_def fn_find_subclasses_def
                   fn_handle_special_case_reverse_def fn_find_superclasses_def Let_def
             split: prod.splits sum.splits if_splits option.splits
             dest: find_subclasses_error find_superclasses_error descriptor_points_error)
  then show ?thesis by auto
qed

lemma trace_universe_error:
  "Inl e \<in> set (trace_universe u) \<Longrightarrow> e \<noteq> RecursionError ''fn_analyse_trace_point''"
  by (auto simp: trace_universe_def dest: starting_point_reverse_error)

lemma next_trace_points_error:
  "next_trace_points u p point = Inl e \<Longrightarrow> e \<noteq> RecursionError ''fn_analyse_trace_point''"
  by (auto simp: next_trace_points_def forward_trace_points_def reverse_trace_points_def
                 fn_find_subclasses_def Let_def
           split: if_splits prod.splits sum.splits dest: find_subclasses_error)

lemma fn_check_stop_condition_error:
  "fn_check_stop_condition p v s = Inl e \<Longrightarrow> e = IndexError"
  by (auto simp: fn_check_stop_condition_def Let_def split: if_splits list.splits)

lemma trace_point_visit_error:
  "trace_point_visit p point chain st = Inl e \<Longrightarrow> e = IndexError"
  by (auto simp: trace_point_visit_def Let_def
           split: if_splits sum.splits stop_condition_value.splits
           dest: fn_check_stop_condition_error)

lemma trace_point_visit_checked:
  assumes "trace_point_visit p point chain st = Inr (st', c)"
  shows "checked_methods st' = insert (compound_name_of point) (checked_methods st)"
    and "c \<noteq> None \<Longrightarrow> compound_name_of point \<notin> checked_methods st"
  using assms
  by (auto simp: trace_point_visit_def Let_def
           split: if_splits sum.splits stop_condition_value.splits)

lemma universe_names_member:
  assumes "Inr point \<in> set (trace_universe u)"
  shows "compound_name_of point \<in> universe_names u"
proof -
  let ?names = "\<lambda>x. case x of Inl e \<Rightarrow> [] | Inr pt \<Rightarrow> [compound_name_of pt]"
  have "compound_name_of point \<in> set (?names (Inr point))" by simp
  with assms have "\<exists>x \<in> set (trace_universe u). compound_name_of point \<in> set (?names x)"
    by (rule rev_bexI)
  then show ?thesis
    unfolding universe_names_def set_concat set_map by blast
qed

lemma finite_universe_names: "finite (universe_names u)"
  unfolding universe_names_def by (rule finite_set)

lemma unchecked_mono:
  "C \<subseteq> C' \<Longrightarrow> card (universe_names u - C') \<le> card (universe_names u - C)"
  by (rule card_mono) (auto simp: finite_universe_names)

lemma unchecked_less:
  assumes "x \<in> universe_names u" and "x \<notin> C"
  shows "card (universe_names u - insert x C) < card (universe_names u - C)"
  by (rule psubset_card_mono) (use assms in \<open>auto simp: finite_universe_names\<close>)

text \<open>
  The loop over the points returns when the analysis of each point does, at the
  same depth.
\<close>

lemma trace_points_loop_returns:
  assumes analyse: "\<And>point chain st.
            Inr point \<in> set (trace_universe u)
            \<Longrightarrow> card (universe_names u - checked_methods st) < n
            \<Longrightarrow> fn_analyse_trace_point n u p point chain st
                  \<noteq> Inl (RecursionError ''fn_analyse_trace_point'')
                \<and> (\<forall>st'. fn_analyse_trace_point n u p point chain st = Inr st'
                      \<longrightarrow> checked_methods st \<subseteq> checked_methods st')"
      and "set points \<subseteq> set (trace_universe u)"
      and "card (universe_names u - checked_methods st) < n"
  shows "trace_points_loop n u p points chain st
           \<noteq> Inl (RecursionError ''fn_analyse_trace_point'')
         \<and> (\<forall>st'. trace_points_loop n u p points chain st = Inr st'
               \<longrightarrow> checked_methods st \<subseteq> checked_methods st')"
  using assms(2,3)
proof (induction points arbitrary: st)
  case Nil
  show ?case by simp
next
  case (Cons x points)
  show ?case
  proof (cases x)
    case (Inl e)
    with Cons.prems(1) have "e \<noteq> RecursionError ''fn_analyse_trace_point''"
      using trace_universe_error [of e u] by auto
    with Inl show ?thesis by simp
  next
    case (Inr point)
    with Cons.prems(1) have point: "Inr point \<in> set (trace_universe u)" by auto
    note a = analyse [OF point Cons.prems(2), of chain]
    show ?thesis
    proof (cases "fn_analyse_trace_point n u p point chain st")
      case (Inl e)
      with a Inr show ?thesis by simp
    next
      case st1: (Inr st1)
      with a have grows: "checked_methods st \<subseteq> checked_methods st1" by simp
      with unchecked_mono [OF grows, of u] Cons.prems(2)
      have "card (universe_names u - checked_methods st1) < n" by simp
      with Cons.IH [of st1] Cons.prems(1)
      have "trace_points_loop n u p points chain st1
              \<noteq> Inl (RecursionError ''fn_analyse_trace_point'')
            \<and> (\<forall>st'. trace_points_loop n u p points chain st1 = Inr st'
                  \<longrightarrow> checked_methods st1 \<subseteq> checked_methods st')"
        by simp
      with grows Inr st1 show ?thesis by auto
    qed
  qed
qed

text \<open>
  A traversal never needs more depth than there are points not yet checked:
  every call that goes one level down has added a name to \<open>checked_methods\<close>.
\<close>

lemma fn_analyse_trace_point_returns:
  assumes order: "trace_direction p = TRACE_FORWARD
                  \<longrightarrow> (\<forall>xs. set (method_set_order u xs) \<subseteq> set xs)"
  shows "Inr point \<in> set (trace_universe u)
         \<Longrightarrow> card (universe_names u - checked_methods st) < n
         \<Longrightarrow> fn_analyse_trace_point n u p point chain st
               \<noteq> Inl (RecursionError ''fn_analyse_trace_point'')
             \<and> (\<forall>st'. fn_analyse_trace_point n u p point chain st = Inr st'
                   \<longrightarrow> checked_methods st \<subseteq> checked_methods st')"
proof (induction n arbitrary: point chain st)
  case 0
  then show ?case by simp
next
  case (Suc n)
  show ?case
  proof (cases "trace_point_visit p point chain st")
    case (Inl e)
    with trace_point_visit_error [OF Inl] show ?thesis by simp
  next
    case (Inr r)
    obtain st1 c where r: "r = (st1, c)" by (cases r)
    note visit = trace_point_visit_checked [OF Inr [unfolded r]]
    show ?thesis
    proof (cases c)
      case None
      with Inr r visit(1) show ?thesis by auto
    next
      case (Some chain1)
      with visit(2) have new: "compound_name_of point \<notin> checked_methods st" by simp
      from unchecked_less [OF universe_names_member [OF Suc.prems(1)] new] visit(1) Suc.prems(2)
      have less: "card (universe_names u - checked_methods st1) < n" by simp
      show ?thesis
      proof (cases "next_trace_points u p point")
        case (Inl e)
        with Inr r Some have "fn_analyse_trace_point (Suc n) u p point chain st = Inl e"
          by simp
        with next_trace_points_error [OF Inl] show ?thesis by simp
      next
        case points: (Inr points)
        from next_trace_points_universe [OF order points]
        have "set points \<subseteq> set (trace_universe u)" .
        from trace_points_loop_returns [OF Suc.IH this less, of chain1]
        have loop: "trace_points_loop n u p points chain1 st1
                \<noteq> Inl (RecursionError ''fn_analyse_trace_point'')
              \<and> (\<forall>st'. trace_points_loop n u p points chain1 st1 = Inr st'
                    \<longrightarrow> checked_methods st1 \<subseteq> checked_methods st')" .
        from Inr r Some points
        have "fn_analyse_trace_point (Suc n) u p point chain st
                = trace_points_loop n u p points chain1 st1"
          by simp
        with loop visit(1) show ?thesis by auto
      qed
    qed
  qed
qed

text \<open>Once the depth allowed is enough, a greater depth gives the same result.\<close>

lemma trace_depth_Suc:
  "fn_analyse_trace_point n u p point chain st = r
   \<Longrightarrow> r \<noteq> Inl (RecursionError ''fn_analyse_trace_point'')
   \<Longrightarrow> fn_analyse_trace_point (Suc n) u p point chain st = r"
  "trace_points_loop n u p points chain st = r
   \<Longrightarrow> r \<noteq> Inl (RecursionError ''fn_analyse_trace_point'')
   \<Longrightarrow> trace_points_loop (Suc n) u p points chain st = r"
proof (induction n u p point chain st and n u p points chain st arbitrary: r and r
       rule: fn_analyse_trace_point_trace_points_loop.induct)
  case (1 u p point trace_chain st)
  then show ?case by simp
next
  case (2 n u p point trace_chain st)
  show ?case
  proof (cases "trace_point_visit p point trace_chain st")
    case (Inl e)
    with "2.prems" show ?thesis by simp
  next
    case (Inr v)
    obtain st1 c where v: "v = (st1, c)" by (cases v)
    show ?thesis
    proof (cases c)
      case None
      with Inr v "2.prems" show ?thesis by simp
    next
      case (Some chain1)
      show ?thesis
      proof (cases "next_trace_points u p point")
        case (Inl e)
        with Inr v Some "2.prems" show ?thesis by simp
      next
        case points: (Inr points)
        from Inr v Some points "2.prems"
        have "trace_points_loop n u p points chain1 st1 = r" by simp
        from "2.IH" [OF Inr [unfolded v Some] refl refl points this "2.prems"(2)]
        have "trace_points_loop (Suc n) u p points chain1 st1 = r" .
        with Inr v Some points show ?thesis by simp
      qed
    qed
  qed
next
  case (3 n u p trace_chain st)
  then show ?case by simp
next
  case (4 n u p e rest trace_chain st)
  then show ?case by simp
next
  case (5 n u p point rest trace_chain st)
  show ?case
  proof (cases "fn_analyse_trace_point n u p point trace_chain st")
    case (Inl e)
    with "5.prems"(1) have r: "r = Inl e" by simp
    with "5.prems"(2) have "Inl e \<noteq> (Inl (RecursionError ''fn_analyse_trace_point'')
                                      :: error + trace_state)"
      by simp
    from "5.IH"(1) [OF Inl this]
    have "fn_analyse_trace_point (Suc n) u p point trace_chain st = Inl e" .
    with r show ?thesis by simp
  next
    case (Inr st1)
    have "Inr st1 \<noteq> (Inl (RecursionError ''fn_analyse_trace_point'') :: error + trace_state)"
      by simp
    from "5.IH"(1) [OF Inr this]
    have a: "fn_analyse_trace_point (Suc n) u p point trace_chain st = Inr st1" .
    from Inr "5.prems" have "trace_points_loop n u p rest trace_chain st1 = r" by simp
    from "5.IH"(2) [OF Inr this "5.prems"(2)] a show ?thesis by simp
  qed
qed

lemma trace_depth_independent:
  assumes "trace_points_loop n u p points chain st = r"
      and "r \<noteq> Inl (RecursionError ''fn_analyse_trace_point'')" and "n \<le> m"
  shows "trace_points_loop m u p points chain st = r"
  using assms(3)
proof (induction m rule: dec_induct)
  case base
  show ?case by (fact assms(1))
next
  case (step k)
  from trace_depth_Suc(2) [OF step.IH assms(2)] show ?case .
qed












lemma length_concat_le:
  "\<forall>x \<in> set xs. length (f x) \<le> 1 \<Longrightarrow> length (concat (map f xs)) \<le> length xs"
  by (induction xs) auto

lemma card_universe_names: "card (universe_names u) \<le> length (trace_universe u)"
proof -
  let ?names = "\<lambda>x. case x of Inl e \<Rightarrow> [] | Inr point \<Rightarrow> [compound_name_of point]"
  have "card (universe_names u) \<le> length (concat (map ?names (trace_universe u)))"
    unfolding universe_names_def by (rule card_length)
  also have "\<dots> \<le> length (trace_universe u)"
    by (rule length_concat_le) (auto split: sum.splits)
  finally show ?thesis .
qed


text \<open>A traversal from a start point, which begins with nothing checked.\<close>

lemma traversal_returns:
  assumes order: "trace_direction p = TRACE_FORWARD
                  \<longrightarrow> (\<forall>xs. set (method_set_order u xs) \<subseteq> set xs)"
      and depth: "length (trace_universe u) < n"
      and points: "next_trace_points u p point = Inr points"
  shows "trace_points_loop n u p points chain
           \<lparr>checked_methods = {}, stop_condition = s, output_chains = cs\<rparr>
         \<noteq> Inl (RecursionError ''fn_analyse_trace_point'')"
proof -
  let ?st = "\<lparr>checked_methods = {}, stop_condition = s, output_chains = cs\<rparr>"
  from card_universe_names [of u] depth
  have "card (universe_names u - checked_methods ?st) < n" by simp
  from trace_points_loop_returns
         [OF fn_analyse_trace_point_returns [OF order]
             next_trace_points_universe [OF order points] this]
  show ?thesis by blast
qed


lemma trace_from_loop_depth:
  assumes order: "trace_direction p = TRACE_FORWARD
                  \<longrightarrow> (\<forall>xs. set (method_set_order u xs) \<subseteq> set xs)"
      and depth: "length (trace_universe u) < n" and "n \<le> m"
  shows "trace_from_loop m u p t froms cs = trace_from_loop n u p t froms cs"
proof (induction froms arbitrary: cs)
  case Nil
  show ?case by simp
next
  case (Cons f froms)
  show ?case
  proof (cases "fn_determine_class_method_desc f t")
    case (Inl e)
    then show ?thesis by simp
  next
    case (Inr point)
    show ?thesis
    proof (cases "next_trace_points u p point")
      case (Inl e)
      with Inr show ?thesis by simp
    next
      case points: (Inr points)
      let ?st = "\<lparr>checked_methods = {}, stop_condition = STOP_CONDITION_FALSE,
                  output_chains = cs\<rparr>"
      from trace_depth_independent
             [OF refl traversal_returns [OF order depth points] \<open>n \<le> m\<close>]
      have "trace_points_loop m u p points f ?st = trace_points_loop n u p points f ?st" .
      with Cons.IH Inr points show ?thesis by (simp split: sum.splits)
    qed
  qed
qed



text \<open>
  The traversal of the cycle \<open>C calls B calls A calls C\<close> returns, with no chain,
  at depth 10 and so at Python's recursion limit.
\<close>

lemma cycle_trace_returns:
  "fn_trace_handler recursion_limit cycle_utils cycle_params ''<method>'' [''La;->a()V''] []
   = Inr (False, [])"
proof -
  have small: "fn_trace_handler 10 cycle_utils cycle_params ''<method>'' [''La;->a()V''] []
                 = Inr (False, [])"
    by code_simp
  have order: "trace_direction cycle_params = TRACE_FORWARD
               \<longrightarrow> (\<forall>xs. set (method_set_order cycle_utils xs) \<subseteq> set xs)"
    by (simp add: cycle_utils_def AnalysisUtils_def)
  have depth: "length (trace_universe cycle_utils) < 10" by code_simp
  have "(10::nat) \<le> recursion_limit" by (simp add: recursion_limit_def)
  from trace_from_loop_depth [OF order depth this, of "''<method>''" "[''La;->a()V'']" "[]"]
       small
  show ?thesis by (simp add: fn_trace_handler_def)
qed


end
